theory Spec2Isabelle
  imports Complex_Main
begin

section \<open>Data model\<close>

text \<open>
  The game of \<^verbatim>\<open>Screen\<close> keeps a tile grid, one player and the time of the last
  action in mutable refs, and changes them in two places: \<^verbatim>\<open>generateWorld\<close> and the
  per-frame \<^verbatim>\<open>update\<close>. Both are embedded here as functions from the state before to the
  state after.

  JavaScript numbers are modelled as exact real numbers (\<^typ>\<open>real\<close>): the rounding of IEEE
  doubles, NaN and the infinities are outside the model. Grid indices, which the source
  obtains with \<^verbatim>\<open>Math.floor\<close>, are integers. Tile IDs are the numbers of the enum
  \<^verbatim>\<open>BlockType\<close>, kept as numbers because the grid is a \<^verbatim>\<open>number[][]\<close>.
\<close>

definition AIR :: nat where "AIR = 0"
definition DIRT :: nat where "DIRT = 1"
definition GRASS :: nat where "GRASS = 2"
definition STONE :: nat where "STONE = 3"
definition WOOD :: nat where "WOOD = 4"
definition LEAVES :: nat where "LEAVES = 5"
definition BEDROCK :: nat where "BEDROCK = 6"
definition ORE :: nat where "ORE = 7"

text \<open>The reverse mapping of the numeric enum, \<^verbatim>\<open>BlockType[n]\<close>, as a string.\<close>

definition BlockType_name :: "nat \<Rightarrow> string" where
  "BlockType_name n =
     (if n = AIR then ''AIR'' else if n = DIRT then ''DIRT''
      else if n = GRASS then ''GRASS'' else if n = STONE then ''STONE''
      else if n = WOOD then ''WOOD'' else if n = LEAVES then ''LEAVES''
      else if n = BEDROCK then ''BEDROCK'' else if n = ORE then ''ORE''
      else ''undefined'')"

record BiomeConfig =
  name :: string
  skyColor :: string
  blockColors :: "nat \<Rightarrow> string option"
  gravity :: real
  terrainRoughness :: real
  treeDensity :: real

text \<open>
  The fields \<^verbatim>\<open>x\<close>, \<^verbatim>\<open>y\<close>, \<^verbatim>\<open>vx\<close>, \<^verbatim>\<open>vy\<close> of \<^verbatim>\<open>PlayerState\<close> carry the prefix
  \<open>player_\<close>, so that the letters stay free for variables.
\<close>

record PlayerState =
  player_x :: real
  player_y :: real
  player_vx :: real
  player_vy :: real
  facingRight :: bool
  selectedBlock :: nat

record InputState =
  left :: bool
  right :: bool
  up :: bool
  down :: bool
  actionA :: bool
  actionB :: bool

definition DEFAULT_BIOME :: BiomeConfig where
  "DEFAULT_BIOME =
     \<lparr>name = ''Overworld'', skyColor = ''#87CEEB'',
      blockColors = [DIRT \<mapsto> ''#8B4513'', GRASS \<mapsto> ''#32CD32'', STONE \<mapsto> ''#808080'',
                     WOOD \<mapsto> ''#A0522D'', LEAVES \<mapsto> ''#228B22'', BEDROCK \<mapsto> ''#2F2F2F'',
                     ORE \<mapsto> ''#FFD700''],
      gravity = 0.5, terrainRoughness = 0.5, treeDensity = 0.1\<rparr>"

definition TILE_SIZE :: real where "TILE_SIZE = 16"
definition CHUNK_WIDTH :: int where "CHUNK_WIDTH = 64"
definition CHUNK_HEIGHT :: int where "CHUNK_HEIGHT = 48"
definition RENDER_SCALE :: real where "RENDER_SCALE = 2"

text \<open>The canvas element is created with \<^verbatim>\<open>width={320} height={240}\<close>.\<close>

definition canvas_width :: real where "canvas_width = 320"
definition canvas_height :: real where "canvas_height = 240"

subsection \<open>JavaScript arrays\<close>

text \<open>
  A cell of the grid is \<open>Some t\<close> for the number \<open>t\<close>, or \<open>None\<close> for \<^verbatim>\<open>undefined\<close>
  (a hole of the array). Reading an array outside its length gives \<^verbatim>\<open>undefined\<close>;
  reading an element of \<^verbatim>\<open>undefined\<close> throws a TypeError; writing past the end of an
  array extends it with holes.
\<close>

type_synonym cell = "nat option"
type_synonym row = "cell list"
type_synonym world = "row list"

text \<open>\<^verbatim>\<open>world[y]\<close>: the row, or \<open>None\<close> for \<^verbatim>\<open>undefined\<close>.\<close>

definition js_row :: "world \<Rightarrow> int \<Rightarrow> row option" where
  "js_row w y = (if 0 \<le> y \<and> y < int (length w) then Some (w ! nat y) else None)"

text \<open>\<^verbatim>\<open>row[x]\<close>: the number stored there, or \<open>None\<close> for \<^verbatim>\<open>undefined\<close>.\<close>

definition js_cell :: "row \<Rightarrow> int \<Rightarrow> cell" where
  "js_cell r x = (if 0 \<le> x \<and> x < int (length r) then r ! nat x else None)"

text \<open>
  \<^verbatim>\<open>row[x] = v\<close>. Every write of the source is guarded by \<^verbatim>\<open>x >= 0\<close>; a negative
  index would set a property that is no element of the array, and leaves the list as it is.
\<close>

definition js_put :: "row \<Rightarrow> int \<Rightarrow> nat \<Rightarrow> row" where
  "js_put r x v =
     (if x < 0 then r
      else if x < int (length r) then r[nat x := Some v]
      else r @ replicate (nat x - length r) None @ [Some v])"

text \<open>\<^verbatim>\<open>world[y][x]\<close>: \<open>None\<close> is the TypeError of reading an element of \<^verbatim>\<open>undefined\<close>.\<close>

definition read_cell :: "world \<Rightarrow> int \<Rightarrow> int \<Rightarrow> cell option" where
  "read_cell w y x = (case js_row w y of None \<Rightarrow> None | Some r \<Rightarrow> Some (js_cell r x))"

text \<open>\<^verbatim>\<open>world[y][x] = v\<close>: \<open>None\<close> is the TypeError.\<close>

definition write_cell :: "world \<Rightarrow> int \<Rightarrow> int \<Rightarrow> nat \<Rightarrow> world option" where
  "write_cell w y x v =
     (case js_row w y of None \<Rightarrow> None | Some r \<Rightarrow> Some (w[nat y := js_put r x v]))"

text \<open>
  What a reader of the grid sees at row \<open>y\<close>, column \<open>x\<close>: the tile, or \<open>None\<close> where
  there is no row or no element.
\<close>

definition tile_at :: "world \<Rightarrow> int \<Rightarrow> int \<Rightarrow> cell" where
  "tile_at w y x = (case js_row w y of None \<Rightarrow> None | Some r \<Rightarrow> js_cell r x)"

record game =
  world :: world
  player :: PlayerState
  lastActionTime :: int

text \<open>The refs as \<^verbatim>\<open>useRef\<close> initialises them.\<close>

definition initial_game :: game where
  "initial_game =
     \<lparr>world = [],
      player = \<lparr>player_x = 100, player_y = 0, player_vx = 0, player_vy = 0,
                facingRight = True, selectedBlock = DIRT\<rparr>,
      lastActionTime = 0\<rparr>"

section \<open>The frame: \<^verbatim>\<open>update\<close>\<close>

definition pW :: real where "pW = TILE_SIZE * 0.6"
definition pH :: real where "pH = TILE_SIZE * 1.6"

text \<open>
  The test of the tile loops of \<^verbatim>\<open>checkCollision\<close>:
  \<^verbatim>\<open>world[y] && world[y][x] !== BlockType.AIR\<close>. An \<^verbatim>\<open>undefined\<close> row is falsy, an
  \<^verbatim>\<open>undefined\<close> element differs from \<^verbatim>\<open>AIR\<close>.
\<close>

definition solid :: "world \<Rightarrow> int \<Rightarrow> int \<Rightarrow> bool" where
  "solid w y x = (case js_row w y of None \<Rightarrow> False | Some r \<Rightarrow> js_cell r x \<noteq> Some AIR)"

text \<open>
  The two nested loops return \<^verbatim>\<open>true\<close> at the first solid tile of the rows
  \<open>top..bottom\<close> and columns \<open>left..right\<close>, and \<^verbatim>\<open>false\<close> when there is none.
\<close>

definition checkCollision :: "world \<Rightarrow> real \<Rightarrow> real \<Rightarrow> bool" where
  "checkCollision w checkX checkY =
     (let lft = \<lfloor>(checkX - pW / 2) / TILE_SIZE\<rfloor>;
          rgt = \<lfloor>(checkX + pW / 2 - 0.1) / TILE_SIZE\<rfloor>;
          tp = \<lfloor>(checkY - pH) / TILE_SIZE\<rfloor>;
          btm = \<lfloor>(checkY - 0.1) / TILE_SIZE\<rfloor>
      in if lft < 0 \<or> rgt \<ge> CHUNK_WIDTH \<or> btm \<ge> CHUNK_HEIGHT then True
         else if tp < 0 then False
         else list_ex (\<lambda>y. list_ex (\<lambda>x. solid w y x) [lft..rgt]) [tp..btm])"

text \<open>\<^verbatim>\<open>types.indexOf(b)\<close>: the first position of \<open>b\<close>, or \<open>-1\<close>.\<close>

fun indexOf :: "nat list \<Rightarrow> nat \<Rightarrow> int" where
  "indexOf [] b = -1"
| "indexOf (t # ts) b =
     (if t = b then 0 else (let i = indexOf ts b in if i < 0 then -1 else i + 1))"

definition types :: "nat list" where
  "types = [DIRT, STONE, WOOD, GRASS, LEAVES]"

text \<open>
  What one frame draws: the sky colour, the camera translation, the tiles filled (pixel
  position and colour, in drawing order), the top left corner of the player's rectangle and
  the corner of the selection cursor.
\<close>

record frame =
  sky :: string
  camera :: "real \<times> real"
  tiles :: "(real \<times> real \<times> string) list"
  body :: "real \<times> real"
  cursor :: "real \<times> real"

text \<open>
  The tile loops of the renderer. A missing row is skipped; a block that is not \<^verbatim>\<open>AIR\<close>
  is filled with \<^verbatim>\<open>biome.blockColors[block] || '#FF00FF'\<close>, where an \<^verbatim>\<open>undefined\<close>
  block has no colour and the empty string is falsy.
\<close>

definition tile_colour :: "BiomeConfig \<Rightarrow> cell \<Rightarrow> string" where
  "tile_colour biome block =
     (case block of None \<Rightarrow> ''#FF00FF''
      | Some t \<Rightarrow> (case blockColors biome t of None \<Rightarrow> ''#FF00FF''
                   | Some c \<Rightarrow> if c = [] then ''#FF00FF'' else c))"

definition draw_row :: "BiomeConfig \<Rightarrow> row \<Rightarrow> int \<Rightarrow> int list \<Rightarrow> (real \<times> real \<times> string) list" where
  "draw_row biome r y cols =
     concat (map (\<lambda>x. let block = js_cell r x
                       in if block \<noteq> Some AIR
                          then [(of_int x * TILE_SIZE, of_int y * TILE_SIZE, tile_colour biome block)]
                          else []) cols)"

definition draw_world :: "BiomeConfig \<Rightarrow> world \<Rightarrow> int list \<Rightarrow> int list \<Rightarrow> (real \<times> real \<times> string) list" where
  "draw_world biome w rows cols =
     concat (map (\<lambda>y. case js_row w y of None \<Rightarrow> [] | Some r \<Rightarrow> draw_row biome r y cols) rows)"

text \<open>
  The result of one call of \<^verbatim>\<open>update\<close>: the refs afterwards, the messages passed to
  \<^verbatim>\<open>onLog\<close>, the picture drawn (none when the call returned early or threw), and whether
  a TypeError left the call.
\<close>

record step_result =
  after :: game
  logged :: "string list"
  picture :: "frame option"
  thrown :: bool

text \<open>
  \<^verbatim>\<open>update\<close>, in the order of the source. \<open>has_ctx\<close> says whether the canvas and its 2D
  context exist (\<^verbatim>\<open>if (!canvas || !ctx) return\<close>); \<open>now\<close> is the value of
  \<^verbatim>\<open>Date.now()\<close>. The player is mutated in place, so a TypeError in the action block
  leaves the player as the physics made it. The request for the next animation frame is
  not part of the model.
\<close>

definition update :: "bool \<Rightarrow> BiomeConfig \<Rightarrow> InputState \<Rightarrow> int \<Rightarrow> game \<Rightarrow> step_result" where
  "update has_ctx biome inputs now g =
     (if \<not> has_ctx then \<lparr>after = g, logged = [], picture = None, thrown = False\<rparr>
      else
        let p = player g; w = world g;
            vx1 = (if left inputs then - 2 else if right inputs then 2 else player_vx p * 0.8);
            facing1 = (if left inputs then False else if right inputs then True
                       else facingRight p);
            vy1 = min (player_vy p + gravity biome) 8;
            newX = player_x p + vx1;
            newY = player_y p + vy1;
            hitY = checkCollision w (player_x p) newY;
            onGround = (hitY \<and> vy1 > 0);
            y2 = (if hitY
                  then (if vy1 > 0 then of_int \<lfloor>newY / TILE_SIZE\<rfloor> * TILE_SIZE
                        else of_int \<lceil>newY / TILE_SIZE\<rceil> * TILE_SIZE + 0.1)
                  else newY);
            vy2 = (if hitY then 0 else vy1);
            hitX = checkCollision w newX y2;
            x2 = (if hitX then player_x p else newX);
            vx2 = (if hitX then 0 else vx1);
            vy3 = (if up inputs \<and> onGround then - 6 else vy2);
            p1 = p\<lparr>player_x := x2, player_y := y2, player_vx := vx2, player_vy := vy3,
                   facingRight := facing1\<rparr>;
            reach = TILE_SIZE * 1.5;
            targetX = x2 + (if facing1 then reach else - reach);
            targetY = y2 - pH * 0.5;
            gx = \<lfloor>targetX / TILE_SIZE\<rfloor>;
            gy = \<lfloor>targetY / TILE_SIZE\<rfloor>;
            unchanged = Some (w, p1, lastActionTime g, [])
        in case
             (if (actionA inputs \<or> actionB inputs) \<and> now - lastActionTime g > 200
              then
                if gx \<ge> 0 \<and> gx < CHUNK_WIDTH \<and> gy \<ge> 0 \<and> gy < CHUNK_HEIGHT
                then
                  if actionA inputs
                  then
                    (case read_cell w gy gx of None \<Rightarrow> None
                     | Some c \<Rightarrow>
                         if c \<noteq> Some BEDROCK
                         then map_option (\<lambda>w'. (w', p1, now, [])) (write_cell w gy gx AIR)
                         else unchanged)
                  else if actionB inputs
                  then
                    (case read_cell w gy gx of None \<Rightarrow> None
                     | Some c \<Rightarrow>
                         if c = Some AIR
                         then
                           if \<not> checkCollision w targetX targetY
                           then map_option (\<lambda>w'. (w', p1, now, []))
                                  (write_cell w gy gx (selectedBlock p1))
                           else unchanged
                         else
                           let idx = indexOf types (selectedBlock p1);
                               sel = types ! nat ((idx + 1) mod int (length types))
                           in Some (w, p1\<lparr>selectedBlock := sel\<rparr>, now,
                                    [''Equipped: '' @ BlockType_name sel]))
                  else unchanged
                else unchanged
              else unchanged)
           of None \<Rightarrow>
                \<lparr>after = g\<lparr>player := p1\<rparr>, logged = [], picture = None, thrown = True\<rparr>
            | Some (w2, p2, last2, msgs) \<Rightarrow>
                let camX = of_int \<lfloor>player_x p2 - (canvas_width / RENDER_SCALE) / 2\<rfloor>;
                    camY = of_int \<lfloor>player_y p2 - (canvas_height / RENDER_SCALE) / 2\<rfloor>;
                    maxCamX = of_int CHUNK_WIDTH * TILE_SIZE - canvas_width / RENDER_SCALE;
                    maxCamY = of_int CHUNK_HEIGHT * TILE_SIZE - canvas_height / RENDER_SCALE;
                    clampedCamX = max 0 (min camX maxCamX);
                    clampedCamY = max 0 (min camY maxCamY);
                    startCol = \<lfloor>clampedCamX / TILE_SIZE\<rfloor>;
                    endCol = startCol + \<lceil>canvas_width / RENDER_SCALE / TILE_SIZE\<rceil> + 1;
                    startRow = \<lfloor>clampedCamY / TILE_SIZE\<rfloor>;
                    endRow = startRow + \<lceil>canvas_height / RENDER_SCALE / TILE_SIZE\<rceil> + 1;
                    reach2 = TILE_SIZE * 1.5;
                    targetX2 = player_x p2 + (if facingRight p2 then reach2 else - reach2);
                    targetY2 = player_y p2 - pH * 0.5;
                    cursorX = of_int \<lfloor>targetX2 / TILE_SIZE\<rfloor> * TILE_SIZE;
                    cursorY = of_int \<lfloor>targetY2 / TILE_SIZE\<rfloor> * TILE_SIZE
                in \<lparr>after = \<lparr>world = w2, player = p2, lastActionTime = last2\<rparr>,
                    logged = msgs,
                    picture = Some
                      \<lparr>sky = skyColor biome,
                       camera = (clampedCamX, clampedCamY),
                       tiles = draw_world biome w2 [startRow..endRow - 1] [startCol..endCol - 1],
                       body = (player_x p2 - pW / 2, player_y p2 - pH),
                       cursor = (cursorX, cursorY)\<rparr>,
                    thrown = False\<rparr>)"

section \<open>World generation: \<^verbatim>\<open>generateWorld\<close>\<close>

text \<open>
  \<^verbatim>\<open>Math.random()\<close> is a stream of draws \<open>rnd\<close> with the number \<open>k\<close> of draws taken
  so far: a call reads \<open>rnd k\<close> and moves on to \<open>k + 1\<close>. A draw of the source lies in
  \<open>[0, 1)\<close>.
\<close>

definition valid_draws :: "(nat \<Rightarrow> real) \<Rightarrow> bool" where
  "valid_draws rnd = (\<forall>k. 0 \<le> rnd k \<and> rnd k < 1)"

text \<open>The two initial loops build 48 rows of 64 \<^verbatim>\<open>AIR\<close> cells.\<close>

definition air_world :: world where
  "air_world = replicate (nat CHUNK_HEIGHT) (replicate (nat CHUNK_WIDTH) (Some AIR))"

text \<open>
  The block written at row \<open>y\<close> of a column whose surface is at \<open>height\<close>, and the number of
  draws taken after it: only the choice between \<^verbatim>\<open>ORE\<close> and \<^verbatim>\<open>STONE\<close> draws.
\<close>

definition fill_block :: "int \<Rightarrow> int \<Rightarrow> (nat \<Rightarrow> real) \<Rightarrow> nat \<Rightarrow> nat \<times> nat" where
  "fill_block height y rnd k =
     (if y = CHUNK_HEIGHT - 1 then (BEDROCK, k)
      else if y = height then (GRASS, k)
      else if y > height + 5 then ((if rnd k > 0.9 then ORE else STONE), k + 1)
      else (DIRT, k))"

text \<open>\<^verbatim>\<open>for (let y = height; y < CHUNK_HEIGHT; y++)\<close>, from row \<open>y\<close> on.\<close>

function fill_column ::
  "world \<Rightarrow> int \<Rightarrow> int \<Rightarrow> int \<Rightarrow> (nat \<Rightarrow> real) \<Rightarrow> nat \<Rightarrow> (world \<times> nat) option" where
  "fill_column w x height y rnd k =
     (if y < CHUNK_HEIGHT
      then (case fill_block height y rnd k of
              (b, k') \<Rightarrow>
                (case write_cell w y x b of None \<Rightarrow> None
                 | Some w' \<Rightarrow> fill_column w' x height (y + 1) rnd k'))
      else Some (w, k))"
  by pat_completeness auto
termination
  by (relation "measure (\<lambda>(w, x, height, y, rnd, k). nat (CHUNK_HEIGHT - y))") auto

text \<open>\<^verbatim>\<open>for (let i = 1; i <= treeHeight; i++)\<close>, from \<open>i\<close> on: the trunk.\<close>

function grow_trunk :: "world \<Rightarrow> int \<Rightarrow> int \<Rightarrow> int \<Rightarrow> int \<Rightarrow> world option" where
  "grow_trunk w x height treeHeight i =
     (if i \<le> treeHeight
      then (if height - i \<ge> 0
            then (case write_cell w (height - i) x WOOD of None \<Rightarrow> None
                  | Some w' \<Rightarrow> grow_trunk w' x height treeHeight (i + 1))
            else grow_trunk w x height treeHeight (i + 1))
      else Some w)"
  by pat_completeness auto
termination
  by (relation "measure (\<lambda>(w, x, height, treeHeight, i). nat (treeHeight + 1 - i))") auto

text \<open>The body of the two leaf loops at column \<open>lx\<close>, row \<open>ly\<close>.\<close>

definition put_leaf :: "world \<Rightarrow> int \<times> int \<Rightarrow> world option" where
  "put_leaf w c =
     (case c of (lx, ly) \<Rightarrow>
        if lx \<ge> 0 \<and> lx < CHUNK_WIDTH \<and> ly \<ge> 0
        then (case read_cell w ly lx of None \<Rightarrow> None
              | Some t \<Rightarrow> if t = Some AIR then write_cell w ly lx LEAVES else Some w)
        else Some w)"

primrec put_leaves :: "world \<Rightarrow> (int \<times> int) list \<Rightarrow> world option" where
  "put_leaves w [] = Some w"
| "put_leaves w (c # cs) = (case put_leaf w c of None \<Rightarrow> None | Some w' \<Rightarrow> put_leaves w' cs)"

text \<open>The cells the leaf loops visit, in their order: \<open>lx\<close> outside, \<open>ly\<close> inside.\<close>

definition leaf_cells :: "int \<Rightarrow> int \<Rightarrow> int \<Rightarrow> (int \<times> int) list" where
  "leaf_cells x height treeHeight =
     concat (map (\<lambda>lx. map (\<lambda>ly. (lx, ly)) [height - treeHeight - 1..height - treeHeight])
                 [x - 1..x + 1])"

text \<open>The tree of column \<open>x\<close>, after the column is filled.\<close>

definition grow_tree ::
  "BiomeConfig \<Rightarrow> world \<Rightarrow> int \<Rightarrow> int \<Rightarrow> (nat \<Rightarrow> real) \<Rightarrow> nat \<Rightarrow> (world \<times> nat) option" where
  "grow_tree biome w x height rnd k =
     (if x > 5 \<and> x < CHUNK_WIDTH - 5
      then (case read_cell w height x of None \<Rightarrow> None
            | Some t \<Rightarrow>
                if t = Some GRASS
                then
                  if rnd k < treeDensity biome
                  then
                    let treeHeight = 3 + \<lfloor>rnd (k + 1) * 3\<rfloor>
                    in (case grow_trunk w x height treeHeight 1 of None \<Rightarrow> None
                        | Some w1 \<Rightarrow>
                            map_option (\<lambda>w2. (w2, k + 2))
                              (put_leaves w1 (leaf_cells x height treeHeight)))
                  else Some (w, k + 1)
                else Some (w, k))
      else Some (w, k))"

text \<open>The random walk of the surface height at one column, clamped.\<close>

definition walk_height :: "BiomeConfig \<Rightarrow> int \<Rightarrow> (nat \<Rightarrow> real) \<Rightarrow> nat \<Rightarrow> int \<times> nat" where
  "walk_height biome height rnd k =
     (case (if rnd k < terrainRoughness biome
            then (height + (if rnd (k + 1) > 0.5 then 1 else - 1), k + 2)
            else (height, k + 1))
      of (h, k') \<Rightarrow> (max 10 (min (CHUNK_HEIGHT - 5) h), k'))"

text \<open>\<^verbatim>\<open>for (let x = 0; x < CHUNK_WIDTH; x++)\<close>, from column \<open>x\<close> on.\<close>

function gen_columns ::
  "BiomeConfig \<Rightarrow> world \<Rightarrow> int \<Rightarrow> int \<Rightarrow> (nat \<Rightarrow> real) \<Rightarrow> nat \<Rightarrow> world option" where
  "gen_columns biome w height x rnd k =
     (if x < CHUNK_WIDTH
      then (case walk_height biome height rnd k of
              (h, k1) \<Rightarrow>
                (case fill_column w x h h rnd k1 of None \<Rightarrow> None
                 | Some (w1, k2) \<Rightarrow>
                     (case grow_tree biome w1 x h rnd k2 of None \<Rightarrow> None
                      | Some (w2, k3) \<Rightarrow> gen_columns biome w2 h (x + 1) rnd k3)))
      else Some w)"
  by pat_completeness auto
termination
  by (relation "measure (\<lambda>(biome, w, height, x, rnd, k). nat (CHUNK_WIDTH - x))") auto

text \<open>
  \<^verbatim>\<open>generateWorld\<close>: the new grid replaces the old one and the player is put at the top of
  the middle column, at rest; its facing and its selected block stay. \<open>None\<close> is a
  TypeError, which leaves the refs as they were.
\<close>

definition generateWorld :: "BiomeConfig \<Rightarrow> (nat \<Rightarrow> real) \<Rightarrow> game \<Rightarrow> game option" where
  "generateWorld biome rnd g =
     (case gen_columns biome air_world \<lfloor>of_int CHUNK_HEIGHT / (2::real)\<rfloor> 0 rnd 0 of
        None \<Rightarrow> None
      | Some w \<Rightarrow>
          Some (g\<lparr>world := w,
                  player := (player g)\<lparr>player_x := of_int CHUNK_WIDTH * TILE_SIZE * 0.5,
                                        player_y := 0, player_vx := 0, player_vy := 0\<rparr>\<rparr>))"

section \<open>The stages of a frame\<close>

text \<open>
  The source marks three blocks in \<^verbatim>\<open>update\<close>: physics with collision detection,
  actions, rendering. Each is written here as a function of its own, and \<open>run_stages\<close>
  is their sequential composition.
\<close>

text \<open>Velocities from the inputs and gravity, before any collision.\<close>

definition input_vx :: "InputState \<Rightarrow> PlayerState \<Rightarrow> real" where
  "input_vx inputs p =
     (if left inputs then - 2 else if right inputs then 2 else player_vx p * 0.8)"

definition input_facing :: "InputState \<Rightarrow> PlayerState \<Rightarrow> bool" where
  "input_facing inputs p =
     (if left inputs then False else if right inputs then True else facingRight p)"

definition fall_vy :: "BiomeConfig \<Rightarrow> PlayerState \<Rightarrow> real" where
  "fall_vy biome p = min (player_vy p + gravity biome) 8"

text \<open>The vertical move: the new \<open>y\<close> and whether the move was blocked.\<close>

definition blocked_y :: "BiomeConfig \<Rightarrow> world \<Rightarrow> PlayerState \<Rightarrow> bool" where
  "blocked_y biome w p = checkCollision w (player_x p) (player_y p + fall_vy biome p)"

definition resolve_y :: "BiomeConfig \<Rightarrow> world \<Rightarrow> PlayerState \<Rightarrow> real" where
  "resolve_y biome w p =
     (let newY = player_y p + fall_vy biome p
      in if blocked_y biome w p
         then (if fall_vy biome p > 0 then of_int \<lfloor>newY / TILE_SIZE\<rfloor> * TILE_SIZE
               else of_int \<lceil>newY / TILE_SIZE\<rceil> * TILE_SIZE + 0.1)
         else newY)"

definition blocked_x :: "BiomeConfig \<Rightarrow> InputState \<Rightarrow> world \<Rightarrow> PlayerState \<Rightarrow> bool" where
  "blocked_x biome inputs w p =
     checkCollision w (player_x p + input_vx inputs p) (resolve_y biome w p)"

definition physics_step :: "BiomeConfig \<Rightarrow> InputState \<Rightarrow> world \<Rightarrow> PlayerState \<Rightarrow> PlayerState" where
  "physics_step biome inputs w p =
     p\<lparr>player_x := (if blocked_x biome inputs w p then player_x p
                     else player_x p + input_vx inputs p),
       player_y := resolve_y biome w p,
       player_vx := (if blocked_x biome inputs w p then 0 else input_vx inputs p),
       player_vy := (if up inputs \<and> blocked_y biome w p \<and> fall_vy biome p > 0 then - 6
                     else if blocked_y biome w p then 0 else fall_vy biome p),
       facingRight := input_facing inputs p\<rparr>"

text \<open>The target point of the actions and its grid cell.\<close>

definition target_x :: "PlayerState \<Rightarrow> real" where
  "target_x p = player_x p + (if facingRight p then TILE_SIZE * 1.5 else - (TILE_SIZE * 1.5))"

definition target_y :: "PlayerState \<Rightarrow> real" where
  "target_y p = player_y p - pH * 0.5"

definition target_gx :: "PlayerState \<Rightarrow> int" where
  "target_gx p = \<lfloor>target_x p / TILE_SIZE\<rfloor>"

definition target_gy :: "PlayerState \<Rightarrow> int" where
  "target_gy p = \<lfloor>target_y p / TILE_SIZE\<rfloor>"

definition in_grid :: "int \<Rightarrow> int \<Rightarrow> bool" where
  "in_grid gy gx = (gx \<ge> 0 \<and> gx < CHUNK_WIDTH \<and> gy \<ge> 0 \<and> gy < CHUNK_HEIGHT)"

text \<open>The block selected after \<open>b\<close> in the cycle of the B button.\<close>

definition next_block :: "nat \<Rightarrow> nat" where
  "next_block b = types ! nat ((indexOf types b + 1) mod int (length types))"

text \<open>
  Whether the action block is entered: a button is held and more than 200 ms have passed
  since the last action.
\<close>

definition action_due :: "InputState \<Rightarrow> int \<Rightarrow> int \<Rightarrow> bool" where
  "action_due inputs now lastT = ((actionA inputs \<or> actionB inputs) \<and> now - lastT > 200)"

definition interaction_step ::
  "InputState \<Rightarrow> int \<Rightarrow> world \<Rightarrow> PlayerState \<Rightarrow> int
     \<Rightarrow> (world \<times> PlayerState \<times> int \<times> string list) option" where
  "interaction_step inputs now w p lastT =
     (if action_due inputs now lastT
      then
        if in_grid (target_gy p) (target_gx p)
        then
          if actionA inputs
          then
            (case read_cell w (target_gy p) (target_gx p) of None \<Rightarrow> None
             | Some c \<Rightarrow>
                 if c \<noteq> Some BEDROCK
                 then map_option (\<lambda>w'. (w', p, now, []))
                        (write_cell w (target_gy p) (target_gx p) AIR)
                 else Some (w, p, lastT, []))
          else if actionB inputs
          then
            (case read_cell w (target_gy p) (target_gx p) of None \<Rightarrow> None
             | Some c \<Rightarrow>
                 if c = Some AIR
                 then
                   if \<not> checkCollision w (target_x p) (target_y p)
                   then map_option (\<lambda>w'. (w', p, now, []))
                          (write_cell w (target_gy p) (target_gx p) (selectedBlock p))
                   else Some (w, p, lastT, [])
                 else Some (w, p\<lparr>selectedBlock := next_block (selectedBlock p)\<rparr>, now,
                            [''Equipped: '' @ BlockType_name (next_block (selectedBlock p))]))
          else Some (w, p, lastT, [])
        else Some (w, p, lastT, [])
      else Some (w, p, lastT, []))"

text \<open>The camera: the view follows the player and is clamped.\<close>

definition camera_x :: "PlayerState \<Rightarrow> real" where
  "camera_x p =
     max 0 (min (of_int \<lfloor>player_x p - (canvas_width / RENDER_SCALE) / 2\<rfloor>)
                (of_int CHUNK_WIDTH * TILE_SIZE - canvas_width / RENDER_SCALE))"

definition camera_y :: "PlayerState \<Rightarrow> real" where
  "camera_y p =
     max 0 (min (of_int \<lfloor>player_y p - (canvas_height / RENDER_SCALE) / 2\<rfloor>)
                (of_int CHUNK_HEIGHT * TILE_SIZE - canvas_height / RENDER_SCALE))"

definition view_cols :: "PlayerState \<Rightarrow> int list" where
  "view_cols p =
     [\<lfloor>camera_x p / TILE_SIZE\<rfloor>..
      \<lfloor>camera_x p / TILE_SIZE\<rfloor> + \<lceil>canvas_width / RENDER_SCALE / TILE_SIZE\<rceil> + 1 - 1]"

definition view_rows :: "PlayerState \<Rightarrow> int list" where
  "view_rows p =
     [\<lfloor>camera_y p / TILE_SIZE\<rfloor>..
      \<lfloor>camera_y p / TILE_SIZE\<rfloor> + \<lceil>canvas_height / RENDER_SCALE / TILE_SIZE\<rceil> + 1 - 1]"

definition render_step :: "BiomeConfig \<Rightarrow> world \<Rightarrow> PlayerState \<Rightarrow> frame" where
  "render_step biome w p =
     \<lparr>sky = skyColor biome,
      camera = (camera_x p, camera_y p),
      tiles = draw_world biome w (view_rows p) (view_cols p),
      body = (player_x p - pW / 2, player_y p - pH),
      cursor = (of_int (target_gx p) * TILE_SIZE, of_int (target_gy p) * TILE_SIZE)\<rparr>"

text \<open>Physics, then actions, then rendering.\<close>

definition run_stages :: "BiomeConfig \<Rightarrow> InputState \<Rightarrow> int \<Rightarrow> game \<Rightarrow> step_result" where
  "run_stages biome inputs now g =
     (let p1 = physics_step biome inputs (world g) (player g)
      in case interaction_step inputs now (world g) p1 (lastActionTime g) of
           None \<Rightarrow> \<lparr>after = g\<lparr>player := p1\<rparr>, logged = [], picture = None, thrown = True\<rparr>
         | Some (w2, p2, last2, msgs) \<Rightarrow>
             \<lparr>after = \<lparr>world = w2, player = p2, lastActionTime = last2\<rparr>,
              logged = msgs,
              picture = Some (render_step biome w2 p2),
              thrown = False\<rparr>)"

text \<open>A call of \<^verbatim>\<open>update\<close> that returns at once.\<close>

definition skipped :: "game \<Rightarrow> step_result" where
  "skipped g = \<lparr>after = g, logged = [], picture = None, thrown = False\<rparr>"

section \<open>Sample states\<close>

text \<open>
  A flat world, as a biome without roughness and trees gives it when no ore is drawn: air
  above row 24, grass at row 24, five rows of dirt, stone below and bedrock at the bottom.
\<close>

definition flat_tile :: "nat \<Rightarrow> nat" where
  "flat_tile y =
     (if y < 24 then AIR else if y = 24 then GRASS else if y \<le> 29 then DIRT
      else if y < 47 then STONE else BEDROCK)"

definition flat_world :: world where
  "flat_world = map (\<lambda>y. replicate 64 (Some (flat_tile y))) [0..<48]"

text \<open>The player as \<^verbatim>\<open>generateWorld\<close> leaves it, and standing on the grass below.\<close>

definition spawn_game :: game where
  "spawn_game =
     \<lparr>world = flat_world,
      player = \<lparr>player_x = 512, player_y = 0, player_vx = 0, player_vy = 0,
                facingRight = True, selectedBlock = DIRT\<rparr>,
      lastActionTime = 0\<rparr>"

definition standing_game :: game where
  "standing_game =
     \<lparr>world = flat_world,
      player = \<lparr>player_x = 512, player_y = 384, player_vx = 0, player_vy = 0,
                facingRight = True, selectedBlock = DIRT\<rparr>,
      lastActionTime = 0\<rparr>"

definition idle :: InputState where
  "idle = \<lparr>left = False, right = False, up = False, down = False,
            actionA = False, actionB = False\<rparr>"

definition press_A :: InputState where
  "press_A = idle\<lparr>actionA := True\<rparr>"

definition press_B :: InputState where
  "press_B = idle\<lparr>actionB := True\<rparr>"

definition jump_right :: InputState where
  "jump_right = idle\<lparr>right := True, up := True\<rparr>"

text \<open>The flat world with a block of dirt in front of the standing player's chest.\<close>

definition walled_world :: world where
  "walled_world = flat_world[23 := (flat_world ! 23)[33 := Some DIRT]]"

definition walled_game :: game where
  "walled_game = standing_game\<lparr>world := walled_world\<rparr>"

section \<open>The player's box\<close>

text \<open>
  The box of the player is 0.6 tiles wide and 1.6 tiles high, above the feet point
  \<open>(x, y)\<close>. \<^verbatim>\<open>checkCollision\<close> takes its corners to grid columns and rows; the box
  overlaps a tile that is not \<^verbatim>\<open>AIR\<close> when one of these cells is solid.
\<close>

definition box_cols :: "real \<Rightarrow> int list" where
  "box_cols x = [\<lfloor>(x - pW / 2) / TILE_SIZE\<rfloor>..\<lfloor>(x + pW / 2 - 0.1) / TILE_SIZE\<rfloor>]"

definition box_rows :: "real \<Rightarrow> int list" where
  "box_rows y = [\<lfloor>(y - pH) / TILE_SIZE\<rfloor>..\<lfloor>(y - 0.1) / TILE_SIZE\<rfloor>]"

definition overlaps :: "world \<Rightarrow> real \<Rightarrow> real \<Rightarrow> bool" where
  "overlaps w x y = list_ex (\<lambda>r. list_ex (\<lambda>c. solid w r c) (box_cols x)) (box_rows y)"







definition capped_world :: world where
  "capped_world = flat_world[21 := (flat_world ! 21)[32 := Some DIRT]]"

definition capped_game :: game where
  "capped_game =
     \<lparr>world = capped_world,
      player = \<lparr>player_x = 512, player_y = 379, player_vx = 0, player_vy = - 5.5,
                facingRight = True, selectedBlock = DIRT\<rparr>,
      lastActionTime = 0\<rparr>"

section \<open>Shapes of the world\<close>

text \<open>48 rows of 64 cells, and in every cell one of the eight tile IDs.\<close>

definition grid_shape :: "world \<Rightarrow> bool" where
  "grid_shape w =
     (length w = nat CHUNK_HEIGHT \<and> list_all (\<lambda>r. length r = nat CHUNK_WIDTH) w)"

definition block_id :: "cell \<Rightarrow> bool" where
  "block_id c = (case c of None \<Rightarrow> False | Some t \<Rightarrow> t \<le> ORE)"

definition wf_world :: "world \<Rightarrow> bool" where
  "wf_world w = (grid_shape w \<and> list_all (list_all block_id) w)"

text \<open>A cell above the ground that holds no trunk: air, or leaves of a tree nearby.\<close>

definition leafy :: "cell \<Rightarrow> bool" where
  "leafy c = (c = Some AIR \<or> c = Some LEAVES)"

text \<open>
  The ground of column \<open>x\<close> with its surface at row \<open>h\<close>: grass at the surface, dirt in the
  five rows below as far as they lie above the bottom row, from there to the bottom row
  ore where a draw was above 0.9 and stone where it was not, and bedrock in the bottom row.
\<close>

definition deep_block :: "(nat \<Rightarrow> real) \<Rightarrow> cell \<Rightarrow> bool" where
  "deep_block rnd c = (\<exists>j. c = Some (if rnd j > 0.9 then ORE else STONE))"

definition column_layers :: "(nat \<Rightarrow> real) \<Rightarrow> world \<Rightarrow> int \<Rightarrow> int \<Rightarrow> bool" where
  "column_layers rnd w x h =
     (10 \<le> h \<and> h \<le> 43 \<and> tile_at w h x = Some GRASS \<and>
      (\<forall>y\<in>{h + 1..min (h + 5) 46}. tile_at w y x = Some DIRT) \<and>
      (\<forall>y\<in>{h + 6..46}. deep_block rnd (tile_at w y x)) \<and>
      tile_at w 47 x = Some BEDROCK)"

text \<open>
  What stands above the surface of column \<open>x\<close>. Either there is no trunk, and then the
  column is at the border or a draw was not below the tree density; or \<open>5 < x < 59\<close>, a
  draw was below the tree density, and the next draw gives a trunk of 3 to 5 rows of wood
  on the surface with leaves on top of it.
\<close>

definition column_tree :: "BiomeConfig \<Rightarrow> (nat \<Rightarrow> real) \<Rightarrow> world \<Rightarrow> int \<Rightarrow> int \<Rightarrow> bool" where
  "column_tree biome rnd w x h =
     (((\<forall>y\<in>{0..h - 1}. leafy (tile_at w y x)) \<and>
       (x \<le> 5 \<or> 59 \<le> x \<or> (\<exists>k. \<not> rnd k < treeDensity biome))) \<or>
      (5 < x \<and> x < 59 \<and>
       (\<exists>k. rnd k < treeDensity biome \<and>
          (\<exists>th\<in>{3..5}. th = 3 + \<lfloor>rnd (k + 1) * 3\<rfloor> \<and>
             (\<forall>y\<in>{h - th..h - 1}. tile_at w y x = Some WOOD) \<and>
             tile_at w (h - th - 1) x = Some LEAVES \<and>
             (\<forall>y\<in>{0..h - th - 1}. leafy (tile_at w y x))))))"

text \<open>One step of the random walk from the height \<open>hp\<close> of the column before.\<close>

definition walk_step :: "BiomeConfig \<Rightarrow> (nat \<Rightarrow> real) \<Rightarrow> int \<Rightarrow> int \<Rightarrow> bool" where
  "walk_step biome rnd hp h = (\<exists>k. h = fst (walk_height biome hp rnd k))"

text \<open>
  A generated world: the surface heights \<open>hs\<close> walk from 24, and every column has its
  ground and what stands on it.
\<close>

definition generated :: "BiomeConfig \<Rightarrow> (nat \<Rightarrow> real) \<Rightarrow> world \<Rightarrow> bool" where
  "generated biome rnd w =
     (grid_shape w \<and>
      (\<exists>hs. hs (- 1) = 24 \<and>
         (\<forall>x\<in>{0..63}. walk_step biome rnd (hs (x - 1)) (hs x) \<and>
                       column_layers rnd w x (hs x) \<and> column_tree biome rnd w x (hs x))))"


text \<open>
  For the proof that the generator builds such a world: what a later column may do to an
  earlier one (turn air into leaves), a finished column, and the state of the column loop
  when it reaches column \<open>x\<close> with the height \<open>h\<close> of the column before.
\<close>

definition grows :: "world \<Rightarrow> world \<Rightarrow> int \<Rightarrow> bool" where
  "grows w w' c =
     (\<forall>r. tile_at w' r c = tile_at w r c \<or>
          (tile_at w r c = Some AIR \<and> tile_at w' r c = Some LEAVES))"

definition column_done :: "BiomeConfig \<Rightarrow> (nat \<Rightarrow> real) \<Rightarrow> world \<Rightarrow> (int \<Rightarrow> int) \<Rightarrow> int \<Rightarrow> bool" where
  "column_done biome rnd w hs x =
     (walk_step biome rnd (hs (x - 1)) (hs x) \<and> column_layers rnd w x (hs x) \<and>
      column_tree biome rnd w x (hs x))"

definition gen_inv :: "BiomeConfig \<Rightarrow> (nat \<Rightarrow> real) \<Rightarrow> world \<Rightarrow> int \<Rightarrow> int \<Rightarrow> bool" where
  "gen_inv biome rnd w h x =
     (wf_world w \<and>
      (\<exists>hs. hs (- 1) = 24 \<and> hs (x - 1) = h \<and> (\<forall>c\<in>{0..x - 1}. column_done biome rnd w hs c)) \<and>
      (\<forall>c\<in>{x..63}. \<forall>y\<in>{0..47}. leafy (tile_at w y c)))"

text \<open>The draws that are all 0.\<close>

definition zero_draws :: "nat \<Rightarrow> real" where
  "zero_draws k = 0"

section \<open>Runs of the game\<close>

text \<open>
  The states the game reaches: the world is generated when the component mounts and again
  whenever the biome changes, and between these every animation frame calls \<^verbatim>\<open>update\<close>.
\<close>

inductive reachable :: "game \<Rightarrow> bool" where
  start: "valid_draws rnd \<Longrightarrow> generateWorld biome rnd initial_game = Some g \<Longrightarrow> reachable g"
| regenerate: "reachable g \<Longrightarrow> valid_draws rnd \<Longrightarrow> generateWorld biome rnd g = Some g'
                \<Longrightarrow> reachable g'"
| frame: "reachable g \<Longrightarrow> reachable (after (update has_ctx biome inputs now g))"

text \<open>Any number of frames, with any inputs, from the state \<open>g\<close>.\<close>

inductive frames :: "game \<Rightarrow> game \<Rightarrow> bool" where
  none: "frames g g"
| more: "frames g g' \<Longrightarrow> frames g (after (update has_ctx biome inputs now g'))"

section \<open>Reading and writing cells\<close>

declare fill_column.simps [simp del] grow_trunk.simps [simp del] gen_columns.simps [simp del]

lemmas BlockType_defs =
  AIR_def DIRT_def GRASS_def STONE_def WOOD_def LEAVES_def BEDROCK_def ORE_def

lemmas grid_consts = TILE_SIZE_def CHUNK_WIDTH_def CHUNK_HEIGHT_def RENDER_SCALE_def
  canvas_width_def canvas_height_def pW_def pH_def

lemma js_row_Some: "0 \<le> y \<Longrightarrow> y < int (length w) \<Longrightarrow> js_row w y = Some (w ! nat y)"
  by (simp add: js_row_def)

lemma js_cell_put:
  "0 \<le> x \<Longrightarrow> js_cell (js_put r x v) c = (if c = x then Some v else js_cell r c)"
  by (auto simp: js_cell_def js_put_def nth_append nth_list_update nat_less_iff
      dest: nat_eq_iff [THEN iffD1])

lemma tile_at_write:
  assumes "write_cell w y x v = Some w'" and "0 \<le> x"
  shows "tile_at w' r c = (if r = y \<and> c = x then Some v else tile_at w r c)"
proof -
  from assms(1) have y: "0 \<le> y" "y < int (length w)"
    and w': "w' = w[nat y := js_put (w ! nat y) x v]"
    by (auto simp: write_cell_def js_row_def split: if_splits)
  show ?thesis
  proof (cases "r = y")
    case True
    with y w' assms(2) show ?thesis
      by (simp add: tile_at_def js_row_def js_cell_put)
  next
    case False
    with y w' have "js_row w' r = js_row w r"
      by (auto simp: js_row_def nth_list_update)
    with False show ?thesis by (simp add: tile_at_def)
  qed
qed


lemma write_exists: "js_row w y \<noteq> None \<Longrightarrow> \<exists>w'. write_cell w y x v = Some w'"
  by (auto simp: write_cell_def)

lemma read_cell_tile: "read_cell w y x = Some c \<Longrightarrow> tile_at w y x = c"
  by (auto simp: read_cell_def tile_at_def split: option.splits)

lemma read_cell_None: "read_cell w y x = None \<Longrightarrow> tile_at w y x = None"
  by (auto simp: read_cell_def tile_at_def split: option.splits)

lemma tile_read: "tile_at w y x = Some t \<Longrightarrow> read_cell w y x = Some (Some t)"
  by (auto simp: tile_at_def read_cell_def split: option.splits)

lemma solid_tile: "solid w y x = (js_row w y \<noteq> None \<and> tile_at w y x \<noteq> Some AIR)"
  by (auto simp: solid_def tile_at_def split: option.splits)

lemma list_ex_upto: "list_ex P [a..b] = (\<exists>i. a \<le> i \<and> i \<le> b \<and> P i)"
  by (auto simp: list_ex_iff)

lemma overlaps_iff:
  "overlaps w x y \<longleftrightarrow>
     (\<exists>r c. \<lfloor>(y - pH) / TILE_SIZE\<rfloor> \<le> r \<and> r \<le> \<lfloor>(y - 0.1) / TILE_SIZE\<rfloor> \<and>
            \<lfloor>(x - pW / 2) / TILE_SIZE\<rfloor> \<le> c \<and> c \<le> \<lfloor>(x + pW / 2 - 0.1) / TILE_SIZE\<rfloor> \<and>
            solid w r c)"
  unfolding overlaps_def box_rows_def box_cols_def list_ex_upto
  by blast


section \<open>The stages of \<^verbatim>\<open>update\<close>\<close>

lemma update_run_stages: "update True biome inputs now g = run_stages biome inputs now g"
  unfolding update_def run_stages_def interaction_step_def physics_step_def render_step_def
    blocked_x_def resolve_y_def blocked_y_def fall_vy_def input_vx_def input_facing_def
    target_gx_def target_gy_def target_x_def target_y_def in_grid_def next_block_def
    action_due_def camera_x_def camera_y_def view_cols_def view_rows_def
  by (simp add: Let_def split del: if_split cong del: if_weak_cong option.case_cong_weak)

lemma update_no_ctx: "update False biome inputs now g = skipped g"
  by (simp add: update_def skipped_def)

lemma interaction_idle: "interaction_step idle now w p lastT = Some (w, p, lastT, [])"
  by (simp add: interaction_step_def action_due_def idle_def)

lemma interaction_player:
  "interaction_step inputs now w p lastT = Some (w', p', l', m) \<Longrightarrow>
     p' = p\<lparr>selectedBlock := selectedBlock p'\<rparr>"
  by (auto simp: interaction_step_def split: if_splits option.splits)

lemma after_player:
  "player (after (run_stages biome inputs now g)) =
     (physics_step biome inputs (world g) (player g))
       \<lparr>selectedBlock := selectedBlock (player (after (run_stages biome inputs now g)))\<rparr>"
proof (cases "interaction_step inputs now (world g)
    (physics_step biome inputs (world g) (player g)) (lastActionTime g)")
  case None
  then show ?thesis by (simp add: run_stages_def Let_def)
next
  case (Some a)
  then obtain w' p' l' m where a: "a = (w', p', l', m)" by (cases a) auto
  from interaction_player [OF Some [unfolded a]] Some a show ?thesis
    by (simp add: run_stages_def Let_def)
qed

lemma after_motion:
  "player_x (player (after (run_stages biome inputs now g))) =
     player_x (physics_step biome inputs (world g) (player g))"
  "player_y (player (after (run_stages biome inputs now g))) =
     player_y (physics_step biome inputs (world g) (player g))"
  "player_vx (player (after (run_stages biome inputs now g))) =
     player_vx (physics_step biome inputs (world g) (player g))"
  "player_vy (player (after (run_stages biome inputs now g))) =
     player_vy (physics_step biome inputs (world g) (player g))"
  "facingRight (player (after (run_stages biome inputs now g))) =
     facingRight (physics_step biome inputs (world g) (player g))"
  by (subst after_player, simp)+

lemma world_after:
  "world (after (run_stages biome inputs now g)) =
     (case interaction_step inputs now (world g)
             (physics_step biome inputs (world g) (player g)) (lastActionTime g) of
        None \<Rightarrow> world g | Some (w2, p2, l2, m) \<Rightarrow> w2)"
  by (simp add: run_stages_def Let_def split: option.splits)

lemma picture_run_stages:
  "picture (run_stages biome inputs now g) = Some f \<Longrightarrow> \<exists>w p. f = render_step biome w p"
  by (fastforce simp: run_stages_def Let_def split: option.splits)

lemma physics_selected: "selectedBlock (physics_step biome inputs w p) = selectedBlock p"
  by (simp add: physics_step_def)


lemma target_after:
  "target_gx (player (after (run_stages biome inputs now g))) =
     target_gx (physics_step biome inputs (world g) (player g))"
  "target_gy (player (after (run_stages biome inputs now g))) =
     target_gy (physics_step biome inputs (world g) (player g))"
  by (simp_all add: target_gx_def target_gy_def target_x_def target_y_def after_motion)

section \<open>The sample states\<close>

lemmas sample_defs = standing_game_def spawn_game_def walled_game_def DEFAULT_BIOME_def
  idle_def press_A_def press_B_def jump_right_def

lemmas physics_defs = physics_step_def blocked_x_def blocked_y_def resolve_y_def
  fall_vy_def input_vx_def input_facing_def

lemma length_flat_world: "length flat_world = 48"
  by (simp add: flat_world_def)

lemma nth_flat_world: "y < 48 \<Longrightarrow> flat_world ! y = replicate 64 (Some (flat_tile y))"
  by (simp add: flat_world_def)


lemma js_row_flat_world:
  "js_row flat_world y =
     (if 0 \<le> y \<and> y < 48 then Some (replicate 64 (Some (flat_tile (nat y)))) else None)"
proof (cases "0 \<le> y \<and> y < 48")
  case True
  then have "nat y < 48" by linarith
  with True show ?thesis by (simp add: js_row_def flat_world_def)
next
  case False
  then show ?thesis by (auto simp: js_row_def flat_world_def)
qed

lemma js_row_flat_None: "(js_row flat_world y = None) = (\<not> (0 \<le> y \<and> y < 48))"
  by (simp add: js_row_def length_flat_world)

lemma solid_flat_world:
  "solid flat_world y x = (0 \<le> y \<and> y < 48 \<and> (0 \<le> x \<and> x < 64 \<longrightarrow> 24 \<le> y))"
proof (cases "0 \<le> x \<and> x < 64")
  case True
  then have "nat x < 64" by linarith
  with True show ?thesis
    by (auto simp: solid_def js_row_flat_world js_cell_def flat_tile_def BlockType_defs)
next
  case False
  then show ?thesis
    by (auto simp: solid_def js_row_flat_world js_cell_def BlockType_defs)
qed

lemma tile_at_flat_world:
  "tile_at flat_world y x =
     (if 0 \<le> y \<and> y < 48 \<and> 0 \<le> x \<and> x < 64 then Some (flat_tile (nat y)) else None)"
proof (cases "0 \<le> x \<and> x < 64")
  case True
  then have "nat x < 64" by linarith
  with True show ?thesis
    by (simp add: tile_at_def js_row_flat_world js_cell_def)
next
  case False
  then show ?thesis
    by (auto simp: tile_at_def js_row_flat_world js_cell_def)
qed


lemma physics_standing_idle:
  "physics_step DEFAULT_BIOME press_B flat_world (player standing_game) = player standing_game"
  by (simp add: physics_defs sample_defs checkCollision_def grid_consts solid_flat_world)

lemma target_standing:
  "target_gx (player standing_game) = 33" "target_gy (player standing_game) = 23"
  "target_x (player standing_game) = 536" "target_y (player standing_game) = 371.2"
  by (simp_all add: target_gx_def target_gy_def target_x_def target_y_def sample_defs grid_consts)

lemma write_walled: "write_cell flat_world 23 33 DIRT = Some walled_world"
  by (simp add: write_cell_def js_row_Some length_flat_world walled_world_def js_put_def
      nth_flat_world)

lemma tile_walled:
  "tile_at walled_world r c = (if r = 23 \<and> c = 33 then Some DIRT else tile_at flat_world r c)"
  using tile_at_write [OF write_walled] by simp

lemma js_row_walled: "(js_row walled_world y = None) = (\<not> (0 \<le> y \<and> y < 48))"
  by (simp add: js_row_def walled_world_def length_flat_world)

lemma solid_walled_world:
  "solid walled_world y x = ((y = 23 \<and> x = 33) \<or> solid flat_world y x)"
  by (auto simp: solid_tile js_row_walled js_row_flat_None tile_walled BlockType_defs)

lemma physics_walled_idle:
  "physics_step DEFAULT_BIOME press_B walled_world (player standing_game) = player standing_game"
  by (simp add: physics_defs sample_defs checkCollision_def grid_consts solid_walled_world
      solid_flat_world)

lemma place_standing:
  "interaction_step press_B 1000 flat_world (player standing_game) 0 =
     Some (walled_world, player standing_game, 1000, [])"
proof -
  have "read_cell flat_world 23 33 = Some (Some AIR)"
    by (simp add: read_cell_def js_row_flat_world js_cell_def flat_tile_def)
  moreover have "\<not> checkCollision flat_world 536 371.2"
    by (simp add: checkCollision_def grid_consts solid_flat_world)
  moreover note write_walled
  moreover have "selectedBlock (player standing_game) = DIRT"
    by (simp add: standing_game_def)
  ultimately show ?thesis
    by (simp add: interaction_step_def target_standing action_due_def in_grid_def
        press_B_def idle_def grid_consts)
qed

lemma placed_standing:
  "world (after (update True DEFAULT_BIOME press_B 1000 standing_game)) = walled_world"
  by (simp add: update_run_stages world_after standing_game_def
      physics_standing_idle [unfolded standing_game_def, simplified]
      place_standing [unfolded standing_game_def, simplified])

lemma walled_differs: "walled_world \<noteq> flat_world"
proof
  assume "walled_world = flat_world"
  then have "tile_at walled_world 23 33 = tile_at flat_world 23 33" by simp
  then show False
    by (simp add: tile_walled tile_at_flat_world flat_tile_def BlockType_defs)
qed




lemma write_capped: "write_cell flat_world 21 32 DIRT = Some capped_world"
  by (simp add: write_cell_def js_row_Some length_flat_world capped_world_def js_put_def
      nth_flat_world)

lemma js_row_capped: "(js_row capped_world y = None) = (\<not> (0 \<le> y \<and> y < 48))"
  by (simp add: js_row_def capped_world_def length_flat_world)

lemma solid_capped_world:
  "solid capped_world y x = ((y = 21 \<and> x = 32) \<or> solid flat_world y x)"
  using tile_at_write [OF write_capped, of y x]
  by (auto simp: solid_tile js_row_capped js_row_flat_None BlockType_defs)


section \<open>The frame as a composition\<close>

text \<open>
  C10. When the canvas and its 2D context exist, the update of a frame is the sequential
  composition of the physics and collision step, the action step and the render step,
  each run once and in this order; world generation is no part of it. Without a canvas
  or context the update returns at once and runs no stage.
\<close>

theorem update_is_stages:
  "update has_ctx biome inputs now g =
     (if has_ctx then run_stages biome inputs now g else skipped g)"
proof (cases has_ctx)
  case True
  have "update True biome inputs now g = run_stages biome inputs now g"
    by (rule update_run_stages)
  with True show ?thesis by simp
next
  case False
  have "update False biome inputs now g = skipped g"
    by (rule update_no_ctx)
  with False show ?thesis by simp
qed

theorem update_is_stages_witness:
  "update True DEFAULT_BIOME press_B 1000 standing_game =
     run_stages DEFAULT_BIOME press_B 1000 standing_game"
  using update_is_stages [of True DEFAULT_BIOME press_B 1000 standing_game] by simp

text \<open>Without a context the player does not even fall.\<close>

theorem update_without_context_counterexample:
  "player_vy (player (after (update False DEFAULT_BIOME idle 0 spawn_game))) = 0 \<and>
   player_vy (player (after (run_stages DEFAULT_BIOME idle 0 spawn_game))) = 0.5 \<and>
   update False DEFAULT_BIOME idle 0 spawn_game \<noteq> run_stages DEFAULT_BIOME idle 0 spawn_game"
proof -
  have still: "player_vy (player (after (update False DEFAULT_BIOME idle 0 spawn_game))) = 0"
    by (simp add: update_no_ctx skipped_def spawn_game_def)
  have falls: "player_vy (player (after (run_stages DEFAULT_BIOME idle 0 spawn_game))) = 0.5"
    by (simp add: after_motion physics_defs sample_defs checkCollision_def grid_consts)
  have "update False DEFAULT_BIOME idle 0 spawn_game \<noteq> run_stages DEFAULT_BIOME idle 0 spawn_game"
  proof
    assume "update False DEFAULT_BIOME idle 0 spawn_game =
      run_stages DEFAULT_BIOME idle 0 spawn_game"
    with still falls show False by simp
  qed
  with still falls show ?thesis by simp
qed

section \<open>The clock\<close>

lemma interaction_clock:
  assumes "action_due inputs now1 lastT = action_due inputs now2 lastT"
  shows "map_option (\<lambda>(w', p', l', m). (w', p', m)) (interaction_step inputs now1 w p lastT) =
         map_option (\<lambda>(w', p', l', m). (w', p', m)) (interaction_step inputs now2 w p lastT)"
  using assms
  by (auto simp: interaction_step_def option.map_comp comp_def split: option.splits)

lemma run_stages_clock:
  assumes "action_due inputs now1 (lastActionTime g) = action_due inputs now2 (lastActionTime g)"
  shows "world (after (run_stages biome inputs now1 g)) = world (after (run_stages biome inputs now2 g))"
    and "player (after (run_stages biome inputs now1 g)) = player (after (run_stages biome inputs now2 g))"
    and "logged (run_stages biome inputs now1 g) = logged (run_stages biome inputs now2 g)"
    and "picture (run_stages biome inputs now1 g) = picture (run_stages biome inputs now2 g)"
    and "thrown (run_stages biome inputs now1 g) = thrown (run_stages biome inputs now2 g)"
proof -
  let ?i1 = "interaction_step inputs now1 (world g)
      (physics_step biome inputs (world g) (player g)) (lastActionTime g)"
  let ?i2 = "interaction_step inputs now2 (world g)
      (physics_step biome inputs (world g) (player g)) (lastActionTime g)"
  have eq: "map_option (\<lambda>(w', p', l', m). (w', p', m)) ?i1 =
      map_option (\<lambda>(w', p', l', m). (w', p', m)) ?i2"
    by (rule interaction_clock [OF assms])
  have "world (after (run_stages biome inputs now1 g)) = world (after (run_stages biome inputs now2 g)) \<and>
    player (after (run_stages biome inputs now1 g)) = player (after (run_stages biome inputs now2 g)) \<and>
    logged (run_stages biome inputs now1 g) = logged (run_stages biome inputs now2 g) \<and>
    picture (run_stages biome inputs now1 g) = picture (run_stages biome inputs now2 g) \<and>
    thrown (run_stages biome inputs now1 g) = thrown (run_stages biome inputs now2 g)"
  proof (cases ?i1)
    case None
    with eq have "?i2 = None" by simp
    with None show ?thesis by (simp add: run_stages_def Let_def)
  next
    case (Some a)
    with eq obtain b where b: "?i2 = Some b" by (cases ?i2) auto
    obtain w1 p1 l1 m1 where a': "a = (w1, p1, l1, m1)" by (cases a) auto
    obtain w2 p2 l2 m2 where b': "b = (w2, p2, l2, m2)" by (cases b) auto
    from eq Some b a' b' have "w1 = w2" "p1 = p2" "m1 = m2" by simp_all
    with Some b a' b' show ?thesis by (simp add: run_stages_def Let_def)
  qed
  then show "world (after (run_stages biome inputs now1 g)) = world (after (run_stages biome inputs now2 g))"
    and "player (after (run_stages biome inputs now1 g)) = player (after (run_stages biome inputs now2 g))"
    and "logged (run_stages biome inputs now1 g) = logged (run_stages biome inputs now2 g)"
    and "picture (run_stages biome inputs now1 g) = picture (run_stages biome inputs now2 g)"
    and "thrown (run_stages biome inputs now1 g) = thrown (run_stages biome inputs now2 g)"
    by simp_all
qed

text \<open>
  C1. A frame is determined by the world, the player, the time of the last action, the
  inputs and the reading of the clock; the clock matters only through the question
  whether more than 200 ms have passed since the last action. Two runs from the same
  state whose clock readings agree on that question end in the same world and the same
  player, and draw the same picture.
\<close>

theorem clock_only_through_cooldown:
  assumes "(now1 - lastActionTime g > 200) = (now2 - lastActionTime g > 200)"
  shows "world (after (update has_ctx biome inputs now1 g)) =
           world (after (update has_ctx biome inputs now2 g)) \<and>
         player (after (update has_ctx biome inputs now1 g)) =
           player (after (update has_ctx biome inputs now2 g)) \<and>
         logged (update has_ctx biome inputs now1 g) = logged (update has_ctx biome inputs now2 g) \<and>
         picture (update has_ctx biome inputs now1 g) = picture (update has_ctx biome inputs now2 g) \<and>
         thrown (update has_ctx biome inputs now1 g) = thrown (update has_ctx biome inputs now2 g)"
proof (cases has_ctx)
  case True
  from assms have "action_due inputs now1 (lastActionTime g) = action_due inputs now2 (lastActionTime g)"
    by (simp add: action_due_def)
  from run_stages_clock [OF this] True show ?thesis
    by (simp add: update_run_stages)
next
  case False
  then show ?thesis by (simp add: update_no_ctx)
qed

theorem clock_only_through_cooldown_witness:
  "((1000 - lastActionTime standing_game > 200) = (2000 - lastActionTime standing_game > 200)) \<and>
   world (after (update True DEFAULT_BIOME press_B 1000 standing_game)) =
     world (after (update True DEFAULT_BIOME press_B 2000 standing_game)) \<and>
   tile_at (world (after (update True DEFAULT_BIOME press_B 2000 standing_game))) 23 33 = Some DIRT"
proof -
  have c: "(1000 - lastActionTime standing_game > 200) = (2000 - lastActionTime standing_game > 200)"
    by (simp add: standing_game_def)
  have "tile_at (world (after (update True DEFAULT_BIOME press_B 1000 standing_game))) 23 33 = Some DIRT"
    by (simp add: placed_standing tile_walled)
  with c clock_only_through_cooldown [OF c, of True DEFAULT_BIOME press_B] show ?thesis
    by simp
qed

text \<open>
  The same state and inputs, two readings of the clock: 100 ms after the last action the
  B button does nothing, 1000 ms after it a block of dirt is placed.
\<close>

theorem clock_decides_counterexample:
  "tile_at (world (after (update True DEFAULT_BIOME press_B 100 standing_game))) 23 33 = Some AIR \<and>
   tile_at (world (after (update True DEFAULT_BIOME press_B 1000 standing_game))) 23 33 = Some DIRT \<and>
   world (after (update True DEFAULT_BIOME press_B 100 standing_game)) \<noteq>
     world (after (update True DEFAULT_BIOME press_B 1000 standing_game))"
proof -
  have late: "world (after (update True DEFAULT_BIOME press_B 1000 standing_game)) = walled_world"
    by (rule placed_standing)
  have early: "world (after (update True DEFAULT_BIOME press_B 100 standing_game)) = flat_world"
    by (simp add: update_run_stages world_after interaction_step_def action_due_def
        standing_game_def)
  from late early walled_differs show ?thesis
    by (simp add: tile_walled tile_at_flat_world flat_tile_def)
qed

section \<open>The physics of a frame\<close>



section \<open>Collisions\<close>









text \<open>
  A blocked upward move is resolved by \<^verbatim>\<open>Math.ceil(newY / TILE_SIZE) * TILE_SIZE + 0.1\<close>,
  which moves the feet and not the head: the player that rises under a block three rows
  above the grass is put back 0.1 pixels into the grass.
\<close>

lemma head_bump_sinks_into_ground:
  "\<not> overlaps (world capped_game) (player_x (player capped_game)) (player_y (player capped_game)) \<and>
   player_x (player (after (update True DEFAULT_BIOME idle 0 capped_game))) = 512 \<and>
   player_y (player (after (update True DEFAULT_BIOME idle 0 capped_game))) = 384.1 \<and>
   overlaps (world capped_game)
     (player_x (player (after (update True DEFAULT_BIOME idle 0 capped_game))))
     (player_y (player (after (update True DEFAULT_BIOME idle 0 capped_game))))"
proof -
  have p: "physics_step DEFAULT_BIOME idle capped_world (player capped_game) =
      \<lparr>player_x = 512, player_y = 384.1, player_vx = 0, player_vy = 0,
       facingRight = True, selectedBlock = DIRT\<rparr>"
    by (simp add: physics_defs capped_game_def idle_def DEFAULT_BIOME_def
        checkCollision_def grid_consts solid_capped_world solid_flat_world)
  have pre: "\<not> overlaps capped_world 512 379"
    by (simp add: overlaps_iff grid_consts solid_capped_world solid_flat_world)
  have "solid capped_world 24 32"
    by (simp add: solid_capped_world solid_flat_world)
  then have post: "overlaps capped_world 512 384.1"
    unfolding overlaps_iff
    by (intro exI [of _ 24] exI [of _ 32]) (simp add: grid_consts)
  from p pre post show ?thesis
    by (simp add: update_run_stages after_motion capped_game_def)
qed

section \<open>The actions\<close>




lemma indexOf_types:
  "indexOf types DIRT = 0" "indexOf types STONE = 1" "indexOf types WOOD = 2"
  "indexOf types GRASS = 3" "indexOf types LEAVES = 4"
  by (simp_all add: types_def BlockType_defs)

lemma next_block_cycle:
  "next_block DIRT = STONE" "next_block STONE = WOOD" "next_block WOOD = GRASS"
  "next_block GRASS = LEAVES" "next_block LEAVES = DIRT"
  by (simp_all add: next_block_def indexOf_types) (simp_all add: types_def)

lemma next_block_types:
  assumes "i < 5"
  shows "next_block (types ! i) = types ! ((i + 1) mod 5)"
proof -
  from assms consider "i = 0" | "i = 1" | "i = 2" | "i = 3" | "i = 4" by linarith
  then show ?thesis
    by cases (simp_all add: types_def next_block_cycle)
qed

lemma place_or_cycle:
  assumes "actionB inputs" and "\<not> actionA inputs" and "now - lastT > 200"
    and "in_grid (target_gy p) (target_gx p)"
    and "tile_at w (target_gy p) (target_gx p) = Some t"
  shows "if t = AIR
         then interaction_step inputs now w p lastT = Some (w, p, lastT, []) \<or>
              (\<exists>w'. write_cell w (target_gy p) (target_gx p) (selectedBlock p) = Some w' \<and>
                    interaction_step inputs now w p lastT = Some (w', p, now, []))
         else interaction_step inputs now w p lastT =
                Some (w, p\<lparr>selectedBlock := next_block (selectedBlock p)\<rparr>, now,
                      [''Equipped: '' @ BlockType_name (next_block (selectedBlock p))])"
proof -
  from assms(5) have "js_row w (target_gy p) \<noteq> None"
    by (auto simp: tile_at_def split: option.splits)
  from write_exists [OF this] obtain w' where
    "write_cell w (target_gy p) (target_gx p) (selectedBlock p) = Some w'"
    by blast
  with assms tile_read [OF assms(5)] show ?thesis
    by (cases "checkCollision w (target_x p) (target_y p)")
      (simp_all add: interaction_step_def action_due_def)
qed

text \<open>
  C8. Placing never overwrites. When the B action fires (B is held without A, more than
  200 ms after the last action) on a target cell of the grid, the world changes only if
  that cell was \<^verbatim>\<open>AIR\<close>, and then the cell holds the block that was selected; if the cell
  holds another tile, the world stays as it is and the selected block moves one step on
  in the cycle DIRT, STONE, WOOD, GRASS, LEAVES, DIRT.
\<close>

theorem place_never_overwrites:
  assumes "actionB inputs" and "\<not> actionA inputs" and "now - lastActionTime g > 200"
    and "g' = after (update True biome inputs now g)"
    and "gx = target_gx (player g')" and "gy = target_gy (player g')"
    and "0 \<le> gx" and "gx < 64" and "0 \<le> gy" and "gy < 48"
    and "tile_at (world g) gy gx = Some t"
  shows "(world g' \<noteq> world g \<longrightarrow>
            t = AIR \<and> tile_at (world g') gy gx = Some (selectedBlock (player g))) \<and>
         (t \<noteq> AIR \<longrightarrow>
            world g' = world g \<and>
            (\<forall>i<5. selectedBlock (player g) = types ! i \<longrightarrow>
               selectedBlock (player g') = types ! ((i + 1) mod 5)))"
proof -
  let ?p1 = "physics_step biome inputs (world g) (player g)"
  let ?r = "interaction_step inputs now (world g) ?p1 (lastActionTime g)"
  from assms(4-6) have tg: "gx = target_gx ?p1" "gy = target_gy ?p1"
    by (simp_all add: update_run_stages target_after)
  with assms(7-10) have grid: "in_grid (target_gy ?p1) (target_gx ?p1)"
    by (simp add: in_grid_def grid_consts)
  from assms(11) tg have t: "tile_at (world g) (target_gy ?p1) (target_gx ?p1) = Some t"
    by simp
  note pc = place_or_cycle [OF assms(1-3) grid t]
  have g': "g' = after (run_stages biome inputs now g)"
    using assms(4) by (simp add: update_run_stages)
  show ?thesis
  proof (cases "t = AIR")
    case True
    with pc consider "?r = Some (world g, ?p1, lastActionTime g, [])"
      | w' where "write_cell (world g) gy gx (selectedBlock (player g)) = Some w'"
          "?r = Some (w', ?p1, now, [])"
      using tg by (auto simp: physics_selected)
    then show ?thesis
    proof cases
      case 1
      then show ?thesis using True by (simp add: g' run_stages_def Let_def)
    next
      case 2
      from tile_at_write [OF 2(1) assms(7), of gy gx] 2(2) True show ?thesis
        by (simp add: g' run_stages_def Let_def)
    qed
  next
    case False
    with pc have r: "?r = Some (world g, ?p1\<lparr>selectedBlock := next_block (selectedBlock ?p1)\<rparr>,
        now, [''Equipped: '' @ BlockType_name (next_block (selectedBlock ?p1))])"
      by simp
    then have "world g' = world g"
      and "selectedBlock (player g') = next_block (selectedBlock (player g))"
      by (simp_all add: g' run_stages_def Let_def physics_selected)
    with False show ?thesis by (auto simp: next_block_types)
  qed
qed

theorem place_never_overwrites_witness:
  "tile_at (world (after (update True DEFAULT_BIOME press_B 1000 standing_game))) 23 33 = Some DIRT \<and>
   world (after (update True DEFAULT_BIOME press_B 1000 walled_game)) = world walled_game \<and>
   selectedBlock (player (after (update True DEFAULT_BIOME press_B 1000 walled_game))) = STONE"
proof -
  let ?g1 = "after (update True DEFAULT_BIOME press_B 1000 standing_game)"
  let ?g2 = "after (update True DEFAULT_BIOME press_B 1000 walled_game)"
  have b: "actionB press_B" "\<not> actionA press_B"
    by (simp_all add: press_B_def idle_def)
  have t1: "1000 - lastActionTime standing_game > 200" "1000 - lastActionTime walled_game > 200"
    by (simp_all add: standing_game_def walled_game_def)
  have tg1: "target_gx (player ?g1) = 33" "target_gy (player ?g1) = 23"
    by (simp_all add: update_run_stages target_after standing_game_def
        physics_standing_idle [unfolded standing_game_def, simplified]
        target_standing [unfolded standing_game_def, simplified])
  have tg2: "target_gx (player ?g2) = 33" "target_gy (player ?g2) = 23"
    by (simp_all add: update_run_stages target_after standing_game_def walled_game_def
        physics_walled_idle [unfolded standing_game_def, simplified]
        target_standing [unfolded standing_game_def, simplified])
  have c1: "tile_at (world standing_game) 23 33 = Some AIR"
    by (simp add: standing_game_def tile_at_flat_world flat_tile_def)
  have c2: "tile_at (world walled_game) 23 33 = Some DIRT"
    by (simp add: walled_game_def tile_walled)
  have ne: "world ?g1 \<noteq> world standing_game"
    using placed_standing walled_differs by (simp add: standing_game_def)
  have s: "selectedBlock (player walled_game) = types ! 0"
    by (simp add: walled_game_def standing_game_def types_def)
  from place_never_overwrites [OF b t1(1) refl tg1 [symmetric] _ _ _ _ c1] ne
  have "tile_at (world ?g1) 23 33 = Some (selectedBlock (player standing_game))"
    by simp
  moreover
  from place_never_overwrites [OF b t1(2) refl tg2 [symmetric] _ _ _ _ c2]
  have w2: "world ?g2 = world walled_game"
    and cyc: "\<forall>i<5. selectedBlock (player walled_game) = types ! i \<longrightarrow>
      selectedBlock (player ?g2) = types ! ((i + 1) mod 5)"
    by (simp_all add: BlockType_defs)
  from cyc [rule_format, of 0] s have "selectedBlock (player ?g2) = types ! 1"
    by simp
  ultimately show ?thesis
    using w2 by (simp add: standing_game_def types_def)
qed

section \<open>The camera\<close>

lemma camera_bounds:
  "0 \<le> camera_x p \<and> camera_x p \<le> 64 * 16 - 160 \<and> 0 \<le> camera_y p \<and> camera_y p \<le> 48 * 16 - 120"
  by (simp add: camera_x_def camera_y_def grid_consts)

text \<open>
  C9. The camera of every picture is clamped to the world: the 160 by 120 view window of
  the 320 by 240 canvas at render scale 2 starts at a point with
  \<open>0 \<le> camX \<le> 64 * 16 - 160\<close> and \<open>0 \<le> camY \<le> 48 * 16 - 120\<close>, wherever the player is.
\<close>

theorem camera_clamped:
  "picture (update has_ctx biome inputs now g) = Some f \<Longrightarrow>
     0 \<le> fst (camera f) \<and> fst (camera f) \<le> 64 * 16 - 160 \<and>
     0 \<le> snd (camera f) \<and> snd (camera f) \<le> 48 * 16 - 120"
proof (cases has_ctx)
  case True
  assume "picture (update has_ctx biome inputs now g) = Some f"
  with True have "picture (run_stages biome inputs now g) = Some f"
    by (simp add: update_run_stages)
  then obtain w p where "f = render_step biome w p"
    using picture_run_stages by blast
  then show ?thesis
    using camera_bounds [of p] by (simp add: render_step_def)
next
  case False
  assume "picture (update has_ctx biome inputs now g) = Some f"
  with False show ?thesis
    by (simp add: update_no_ctx skipped_def)
qed

text \<open>The frame drawn right after the world is generated.\<close>

theorem camera_clamped_witness:
  "\<exists>f. picture (update True DEFAULT_BIOME idle 0 spawn_game) = Some f \<and>
     0 \<le> fst (camera f) \<and> fst (camera f) \<le> 64 * 16 - 160 \<and>
     0 \<le> snd (camera f) \<and> snd (camera f) \<le> 48 * 16 - 120"
proof -
  obtain f where f: "picture (update True DEFAULT_BIOME idle 0 spawn_game) = Some f"
    by (simp add: update_run_stages run_stages_def interaction_idle Let_def)
  from camera_clamped [OF f] f show ?thesis by blast
qed

section \<open>Well-formed worlds\<close>

lemma wf_world_rows:
  assumes "wf_world w" and "0 \<le> y" and "y < 48"
  shows "nat y < length w" and "length (w ! nat y) = 64" and "list_all block_id (w ! nat y)"
proof -
  from assms show l: "nat y < length w"
    by (simp add: wf_world_def grid_shape_def grid_consts)
  then have "w ! nat y \<in> set w" by simp
  with assms(1) show "length (w ! nat y) = 64" and "list_all block_id (w ! nat y)"
    by (auto simp: wf_world_def grid_shape_def grid_consts list_all_iff)
qed

lemma wf_tile:
  assumes "wf_world w" and "0 \<le> y" and "y < 48" and "0 \<le> x" and "x < 64"
  shows "\<exists>t\<le>ORE. tile_at w y x = Some t"
proof -
  note r = wf_world_rows [OF assms(1-3)]
  from assms(4,5) r(2) have "nat x < length (w ! nat y)" by simp
  then have "w ! nat y ! nat x \<in> set (w ! nat y)" by simp
  with r(3) have "block_id (w ! nat y ! nat x)" by (simp add: list_all_iff)
  with assms r show ?thesis
    by (auto simp: tile_at_def js_row_def js_cell_def block_id_def split: option.splits)
qed

lemma wf_read:
  assumes "wf_world w" and "0 \<le> y" and "y < 48"
  shows "read_cell w y x = Some (tile_at w y x)"
  using wf_world_rows(1) [OF assms] assms(2)
  by (simp add: read_cell_def tile_at_def js_row_def)

lemma write_wf:
  assumes "wf_world w" and "0 \<le> y" and "y < 48" and "0 \<le> x" and "x < 64" and "v \<le> ORE"
  shows "\<exists>w'. write_cell w y x v = Some w' \<and> wf_world w'"
proof -
  note r = wf_world_rows [OF assms(1-3)]
  let ?r' = "(w ! nat y)[nat x := Some v]"
  let ?w' = "w[nat y := ?r']"
  from assms r have wr: "write_cell w y x v = Some ?w'"
    by (simp add: write_cell_def js_row_def js_put_def)
  have "set ?r' \<subseteq> insert (Some v) (set (w ! nat y))"
    by (rule set_update_subset_insert)
  with r(3) assms(6) have cells: "list_all block_id ?r'"
    by (auto simp: list_all_iff block_id_def)
  have len: "length ?r' = 64" using r(2) by simp
  have "set ?w' \<subseteq> insert ?r' (set w)"
    by (rule set_update_subset_insert)
  with assms(1) cells len have "wf_world ?w'"
    by (auto simp: wf_world_def grid_shape_def grid_consts list_all_iff)
  with wr show ?thesis by blast
qed

lemma wf_air_world: "wf_world air_world"
  by (simp add: wf_world_def grid_shape_def air_world_def grid_consts list_all_iff block_id_def
      BlockType_defs)

lemma tile_air_world:
  "0 \<le> y \<Longrightarrow> y < 48 \<Longrightarrow> 0 \<le> x \<Longrightarrow> x < 64 \<Longrightarrow> tile_at air_world y x = Some AIR"
  by (simp add: tile_at_def js_row_def js_cell_def air_world_def grid_consts)

section \<open>The loops of the generator\<close>

lemma fill_block_id: "fst (fill_block h y rnd k) \<le> ORE"
  by (simp add: fill_block_def BlockType_defs)

lemma fill_column_spec:
  assumes "wf_world w" and "0 \<le> x" and "x < 64" and "0 \<le> y"
  shows "\<exists>w' k'. fill_column w x h y rnd k = Some (w', k') \<and> wf_world w' \<and>
           (\<forall>r c. \<not> (c = x \<and> y \<le> r \<and> r < 48) \<longrightarrow> tile_at w' r c = tile_at w r c) \<and>
           (\<forall>r. y \<le> r \<and> r < 48 \<longrightarrow> (\<exists>j. tile_at w' r x = Some (fst (fill_block h r rnd j))))"
  using assms
proof (induction w x h y rnd k rule: fill_column.induct)
  case (1 w x h y rnd k)
  show ?case
  proof (cases "y < 48")
    case False
    then have "fill_column w x h y rnd k = Some (w, k)"
      by (subst fill_column.simps) (simp add: grid_consts)
    with False "1.prems"(1) show ?thesis by auto
  next
    case True
    obtain b k1 where fb: "fill_block h y rnd k = (b, k1)"
      by (cases "fill_block h y rnd k") auto
    then have "b \<le> ORE" using fill_block_id [of h y rnd k] by simp
    from write_wf [OF "1.prems"(1) "1.prems"(4) True "1.prems"(2,3) this]
    obtain w1 where w1: "write_cell w y x b = Some w1" "wf_world w1" by blast
    note y48 = True
    from True have lt: "y < CHUNK_HEIGHT" by (simp add: grid_consts)
    from "1.IH" [OF lt fb [symmetric] w1(1) w1(2) "1.prems"(2,3)] "1.prems"(4)
    obtain w' k' where rec: "fill_column w1 x h (y + 1) rnd k1 = Some (w', k')" "wf_world w'"
      and frame: "\<forall>r c. \<not> (c = x \<and> y + 1 \<le> r \<and> r < 48) \<longrightarrow> tile_at w' r c = tile_at w1 r c"
      and blocks: "\<forall>r. y + 1 \<le> r \<and> r < 48 \<longrightarrow> (\<exists>j. tile_at w' r x = Some (fst (fill_block h r rnd j)))"
      by auto
    note t1 = tile_at_write [OF w1(1) "1.prems"(2)]
    have "fill_column w x h y rnd k = Some (w', k')"
      by (subst fill_column.simps) (simp add: lt fb w1 rec)
    moreover have "\<forall>r c. \<not> (c = x \<and> y \<le> r \<and> r < 48) \<longrightarrow> tile_at w' r c = tile_at w r c"
      using frame t1 y48 by auto
    moreover have "\<forall>r. y \<le> r \<and> r < 48 \<longrightarrow> (\<exists>j. tile_at w' r x = Some (fst (fill_block h r rnd j)))"
    proof (intro allI impI)
      fix r assume r: "y \<le> r \<and> r < 48"
      show "\<exists>j. tile_at w' r x = Some (fst (fill_block h r rnd j))"
      proof (cases "r = y")
        case True
        with frame t1 fb have "tile_at w' r x = Some (fst (fill_block h r rnd k))" by simp
        then show ?thesis by blast
      next
        case False
        with r blocks show ?thesis by simp
      qed
    qed
    ultimately show ?thesis using rec(2) by blast
  qed
qed

lemma grow_trunk_spec:
  assumes "wf_world w" and "0 \<le> x" and "x < 64" and "h < 48" and "1 \<le> i"
  shows "\<exists>w'. grow_trunk w x h th i = Some w' \<and> wf_world w' \<and>
           (\<forall>r c. tile_at w' r c =
              (if c = x \<and> h - th \<le> r \<and> r \<le> h - i \<and> 0 \<le> r then Some WOOD
               else tile_at w r c))"
  using assms
proof (induction w x h th i rule: grow_trunk.induct)
  case (1 w x h th i)
  show ?case
  proof (cases "i \<le> th")
    case False
    then have "grow_trunk w x h th i = Some w"
      by (subst grow_trunk.simps) simp
    with False "1.prems"(1) show ?thesis by auto
  next
    case le: True
    show ?thesis
    proof (cases "h - i \<ge> 0")
      case True
      have "WOOD \<le> ORE" by (simp add: BlockType_defs)
      from write_wf [OF "1.prems"(1) True _ "1.prems"(2,3) this] "1.prems"(4,5)
      obtain w1 where w1: "write_cell w (h - i) x WOOD = Some w1" "wf_world w1" by auto
      from "1.IH"(1) [OF le True w1(1) w1(2) "1.prems"(2,3,4)] "1.prems"(5)
      obtain w' where rec: "grow_trunk w1 x h th (i + 1) = Some w'" "wf_world w'"
        and tiles: "\<forall>r c. tile_at w' r c =
            (if c = x \<and> h - th \<le> r \<and> r \<le> h - (i + 1) \<and> 0 \<le> r then Some WOOD
             else tile_at w1 r c)"
        by auto
      note t1 = tile_at_write [OF w1(1) "1.prems"(2)]
      have "grow_trunk w x h th i = Some w'"
        unfolding grow_trunk.simps [of w x h th i] using le True w1 rec by simp
      moreover have "\<forall>r c. tile_at w' r c =
          (if c = x \<and> h - th \<le> r \<and> r \<le> h - i \<and> 0 \<le> r then Some WOOD else tile_at w r c)"
        using tiles t1 le True by auto
      ultimately show ?thesis using rec(2) by blast
    next
      case False
      from "1.IH"(2) [OF le False "1.prems"(1,2,3,4)] "1.prems"(5)
      obtain w' where rec: "grow_trunk w x h th (i + 1) = Some w'" "wf_world w'"
        and tiles: "\<forall>r c. tile_at w' r c =
            (if c = x \<and> h - th \<le> r \<and> r \<le> h - (i + 1) \<and> 0 \<le> r then Some WOOD
             else tile_at w r c)"
        by auto
      have "grow_trunk w x h th i = Some w'"
        unfolding grow_trunk.simps [of w x h th i] using le False rec by simp
      moreover have "\<forall>r c. tile_at w' r c =
          (if c = x \<and> h - th \<le> r \<and> r \<le> h - i \<and> 0 \<le> r then Some WOOD else tile_at w r c)"
        using tiles False by auto
      ultimately show ?thesis using rec(2) by blast
    qed
  qed
qed

lemma put_leaf_spec:
  assumes "wf_world w" and "ly < 48"
  shows "\<exists>w'. put_leaf w (lx, ly) = Some w' \<and> wf_world w' \<and>
           (\<forall>r c. tile_at w' r c =
              (if c = lx \<and> r = ly \<and> 0 \<le> c \<and> c < 64 \<and> 0 \<le> r \<and> tile_at w r c = Some AIR
               then Some LEAVES else tile_at w r c))"
proof (cases "lx \<ge> 0 \<and> lx < 64 \<and> ly \<ge> 0 \<and> tile_at w ly lx = Some AIR")
  case True
  have "LEAVES \<le> ORE" by (simp add: BlockType_defs)
  from write_wf [OF assms(1) _ assms(2) _ _ this] True
  obtain w1 where w1: "write_cell w ly lx LEAVES = Some w1" "wf_world w1" by auto
  from True have "0 \<le> lx" by simp
  note t1 = tile_at_write [OF w1(1) this]
  from True assms have "put_leaf w (lx, ly) = Some w1"
    by (simp add: put_leaf_def wf_read grid_consts w1)
  moreover have "\<forall>r c. tile_at w1 r c =
      (if c = lx \<and> r = ly \<and> 0 \<le> c \<and> c < 64 \<and> 0 \<le> r \<and> tile_at w r c = Some AIR
       then Some LEAVES else tile_at w r c)"
    using t1 True by auto
  ultimately show ?thesis using w1(2) by blast
next
  case False
  with assms have "put_leaf w (lx, ly) = Some w"
    by (auto simp: put_leaf_def wf_read grid_consts)
  with False assms(1) show ?thesis by auto
qed

lemma put_leaves_spec:
  assumes "wf_world w" and "\<forall>(lx, ly)\<in>set cs. ly < 48"
  shows "\<exists>w'. put_leaves w cs = Some w' \<and> wf_world w' \<and>
           (\<forall>r c. tile_at w' r c =
              (if (c, r) \<in> set cs \<and> 0 \<le> c \<and> c < 64 \<and> 0 \<le> r \<and> tile_at w r c = Some AIR
               then Some LEAVES else tile_at w r c))"
  using assms
proof (induction cs arbitrary: w)
  case Nil
  then show ?case by simp
next
  case (Cons a cs)
  obtain lx ly where a: "a = (lx, ly)" by (cases a) auto
  with Cons.prems(2) have ly: "ly < 48" by simp
  from put_leaf_spec [OF Cons.prems(1) ly, of lx]
  obtain w1 where w1: "put_leaf w (lx, ly) = Some w1" "wf_world w1"
    and t1: "\<forall>r c. tile_at w1 r c =
      (if c = lx \<and> r = ly \<and> 0 \<le> c \<and> c < 64 \<and> 0 \<le> r \<and> tile_at w r c = Some AIR
       then Some LEAVES else tile_at w r c)"
    by blast
  from Cons.prems(2) have "\<forall>(lx, ly)\<in>set cs. ly < 48" by simp
  from Cons.IH [OF w1(2) this]
  obtain w' where w': "put_leaves w1 cs = Some w'" "wf_world w'"
    and t': "\<forall>r c. tile_at w' r c =
      (if (c, r) \<in> set cs \<and> 0 \<le> c \<and> c < 64 \<and> 0 \<le> r \<and> tile_at w1 r c = Some AIR
       then Some LEAVES else tile_at w1 r c)"
    by blast
  have "put_leaves w (a # cs) = Some w'"
    by (simp add: a w1 w')
  moreover have "\<forall>r c. tile_at w' r c =
      (if (c, r) \<in> set (a # cs) \<and> 0 \<le> c \<and> c < 64 \<and> 0 \<le> r \<and> tile_at w r c = Some AIR
       then Some LEAVES else tile_at w r c)"
    using t1 t' a by (auto simp: BlockType_defs)
  ultimately show ?case using w'(2) by blast
qed

lemma leaf_cells_set:
  "set (leaf_cells x h th) = {(c, r). x - 1 \<le> c \<and> c \<le> x + 1 \<and> h - th - 1 \<le> r \<and> r \<le> h - th}"
  by (auto simp: leaf_cells_def)

lemma tree_height_range:
  assumes "0 \<le> d" and "d < 1"
  shows "3 + \<lfloor>d * 3\<rfloor> \<in> {3..5}"
proof -
  from assms have "0 \<le> \<lfloor>d * 3\<rfloor>" by simp
  moreover from assms have "\<lfloor>d * 3\<rfloor> < 3" by (simp add: floor_less_iff)
  ultimately show ?thesis by simp
qed

lemma grows_refl: "grows w w c"
  by (simp add: grows_def)

lemma grows_leafy: "grows w w' c \<Longrightarrow> leafy (tile_at w r c) \<Longrightarrow> leafy (tile_at w' r c)"
  unfolding grows_def leafy_def by (drule spec [of _ r]) auto

lemma grows_keeps:
  "grows w w' c \<Longrightarrow> tile_at w r c = Some t \<Longrightarrow> t \<noteq> AIR \<Longrightarrow> tile_at w' r c = Some t"
  unfolding grows_def by (drule spec [of _ r]) auto

lemma grows_layers:
  assumes "grows w w' c" and "column_layers rnd w c h"
  shows "column_layers rnd w' c h"
proof -
  have k: "tile_at w' r c = Some t" if "tile_at w r c = Some t" "t \<noteq> AIR" for r t
    using grows_keeps [OF assms(1) that] .
  have d: "deep_block rnd (tile_at w' r c)" if "deep_block rnd (tile_at w r c)" for r
  proof -
    from that obtain j where "tile_at w r c = Some (if rnd j > 0.9 then ORE else STONE)"
      unfolding deep_block_def by blast
    from k [OF this] show ?thesis
      unfolding deep_block_def by (auto simp: BlockType_defs)
  qed
  from assms(2) show ?thesis
    unfolding column_layers_def
    by (auto simp: BlockType_defs intro!: k d)
qed

lemma grows_tree:
  assumes "grows w w' c" and "column_tree biome rnd w c h"
  shows "column_tree biome rnd w' c h"
proof -
  have k: "tile_at w' r c = Some t" if "tile_at w r c = Some t" "t \<noteq> AIR" for r t
    using grows_keeps [OF assms(1) that] .
  have l: "leafy (tile_at w' r c)" if "leafy (tile_at w r c)" for r
    using grows_leafy [OF assms(1) that] .
  from assms(2) consider
    (bare) "\<forall>y\<in>{0..h - 1}. leafy (tile_at w y c)"
      "c \<le> 5 \<or> 59 \<le> c \<or> (\<exists>k. \<not> rnd k < treeDensity biome)"
    | (tree) k th where "5 < c" "c < 59" "rnd k < treeDensity biome" "th \<in> {3..5}"
      "th = 3 + \<lfloor>rnd (k + 1) * 3\<rfloor>" "\<forall>y\<in>{h - th..h - 1}. tile_at w y c = Some WOOD"
      "tile_at w (h - th - 1) c = Some LEAVES" "\<forall>y\<in>{0..h - th - 1}. leafy (tile_at w y c)"
    unfolding column_tree_def by blast
  then show ?thesis
  proof cases
    case bare
    then show ?thesis
      unfolding column_tree_def using l by blast
  next
    case tree
    have "\<forall>y\<in>{h - th..h - 1}. tile_at w' y c = Some WOOD"
      using tree(6) by (auto simp: BlockType_defs intro!: k)
    moreover have "tile_at w' (h - th - 1) c = Some LEAVES"
      using tree(7) by (auto simp: BlockType_defs intro!: k)
    moreover have "\<forall>y\<in>{0..h - th - 1}. leafy (tile_at w' y c)"
      using tree(8) l by blast
    ultimately show ?thesis
      unfolding column_tree_def using tree(1-5) by blast
  qed
qed

lemma grow_tree_spec:
  assumes wf: "wf_world w" and x: "0 \<le> x" "x < 64" and h: "10 \<le> h" "h \<le> 43"
    and draws: "valid_draws rnd" and grass: "tile_at w h x = Some GRASS"
    and above: "\<forall>y\<in>{0..h - 1}. leafy (tile_at w y x)"
  shows "\<exists>w2 k'. grow_tree biome w x h rnd k = Some (w2, k') \<and> wf_world w2 \<and>
           (\<forall>c. c \<noteq> x \<longrightarrow> grows w w2 c) \<and>
           (\<forall>r. h \<le> r \<longrightarrow> tile_at w2 r x = tile_at w r x) \<and>
           column_tree biome rnd w2 x h"
proof -
  from h have h48: "0 \<le> h" "h < 48" by simp_all
  have rd: "read_cell w h x = Some (Some GRASS)"
    using wf_read [OF wf h48, of x] grass by simp
  show ?thesis
  proof (cases "5 < x \<and> x < 59 \<and> rnd k < treeDensity biome")
    case False
    then have bare: "x \<le> 5 \<or> 59 \<le> x \<or> (\<exists>k. \<not> rnd k < treeDensity biome)" by auto
    from False rd have "\<exists>k'. grow_tree biome w x h rnd k = Some (w, k')"
      by (auto simp: grow_tree_def grid_consts)
    moreover from above bare have "column_tree biome rnd w x h"
      unfolding column_tree_def by blast
    ultimately show ?thesis
      using wf by (auto simp: grows_refl)
  next
    case True
    define th where "th = 3 + \<lfloor>rnd (k + 1) * 3\<rfloor>"
    from draws have "0 \<le> rnd (k + 1)" "rnd (k + 1) < 1"
      by (simp_all add: valid_draws_def)
    from tree_height_range [OF this] have th: "th \<in> {3..5}"
      by (simp add: th_def)
    from grow_trunk_spec [OF wf x h48(2), of 1 th]
    obtain w1 where w1: "grow_trunk w x h th 1 = Some w1" "wf_world w1"
      and t1: "\<forall>r c. tile_at w1 r c =
        (if c = x \<and> h - th \<le> r \<and> r \<le> h - 1 \<and> 0 \<le> r then Some WOOD else tile_at w r c)"
      by auto
    have "\<forall>(lx, ly)\<in>set (leaf_cells x h th). ly < 48"
      using th h by (auto simp: leaf_cells_set)
    from put_leaves_spec [OF w1(2) this]
    obtain w2 where w2: "put_leaves w1 (leaf_cells x h th) = Some w2" "wf_world w2"
      and t2: "\<forall>r c. tile_at w2 r c =
        (if (c, r) \<in> set (leaf_cells x h th) \<and> 0 \<le> c \<and> c < 64 \<and> 0 \<le> r \<and>
            tile_at w1 r c = Some AIR
         then Some LEAVES else tile_at w1 r c)"
      by blast
    from True rd w1 w2 have run: "grow_tree biome w x h rnd k = Some (w2, k + 2)"
      by (simp add: grow_tree_def grid_consts Let_def th_def)
    have others: "grows w w2 c" if "c \<noteq> x" for c
      using t1 t2 that by (auto simp: grows_def)
    have below: "tile_at w2 r x = tile_at w r x" if "h \<le> r" for r
      using t1 t2 that th by (auto simp: leaf_cells_set)
    have wood: "\<forall>y\<in>{h - th..h - 1}. tile_at w2 y x = Some WOOD"
      using t1 t2 th h by (auto simp: BlockType_defs)
    have top: "tile_at w2 (h - th - 1) x = Some LEAVES"
    proof -
      from th h have "h - th - 1 \<in> {0..h - 1}" by auto
      with above have "leafy (tile_at w (h - th - 1) x)" by blast
      moreover have "tile_at w1 (h - th - 1) x = tile_at w (h - th - 1) x"
        using t1 by simp
      moreover have "(x, h - th - 1) \<in> set (leaf_cells x h th)"
        by (simp add: leaf_cells_set)
      ultimately show ?thesis
        using t2 x th h by (auto simp: leafy_def)
    qed
    have crown: "\<forall>y\<in>{0..h - th - 1}. leafy (tile_at w2 y x)"
    proof
      fix y assume y: "y \<in> {0..h - th - 1}"
      with th have "y \<in> {0..h - 1}" by auto
      with above have "leafy (tile_at w y x)" by blast
      moreover from y have "tile_at w1 y x = tile_at w y x"
        using t1 by simp
      ultimately show "leafy (tile_at w2 y x)"
        using t2 by (auto simp: leafy_def)
    qed
    from True th wood top crown have "column_tree biome rnd w2 x h"
      unfolding column_tree_def th_def by blast
    with run w2(2) others below show ?thesis by blast
  qed
qed

lemma walk_height_range: "10 \<le> fst (walk_height biome h rnd k) \<and> fst (walk_height biome h rnd k) \<le> 43"
  by (simp add: walk_height_def grid_consts split: prod.splits)

lemma fill_block_layers:
  assumes "10 \<le> h" and "h \<le> 43"
  shows "fst (fill_block h h rnd j) = GRASS"
    and "y \<in> {h + 1..min (h + 5) 46} \<Longrightarrow> fst (fill_block h y rnd j) = DIRT"
    and "y \<in> {h + 6..46} \<Longrightarrow>
           fst (fill_block h y rnd j) = (if rnd j > 0.9 then ORE else STONE)"
    and "fst (fill_block h 47 rnd j) = BEDROCK"
  using assms by (auto simp: fill_block_def grid_consts)

lemma gen_step:
  assumes inv: "gen_inv biome rnd w h x" and x: "0 \<le> x" "x < 64" and draws: "valid_draws rnd"
  shows "\<exists>h' k1 w1 k2 w2 k3.
           walk_height biome h rnd k = (h', k1) \<and>
           fill_column w x h' h' rnd k1 = Some (w1, k2) \<and>
           grow_tree biome w1 x h' rnd k2 = Some (w2, k3) \<and>
           gen_inv biome rnd w2 h' (x + 1)"
proof -
  from inv obtain hs where wf: "wf_world w" and hs: "hs (- 1) = 24" "hs (x - 1) = h"
    and finished: "\<forall>c\<in>{0..x - 1}. column_done biome rnd w hs c"
    and rest: "\<forall>c\<in>{x..63}. \<forall>y\<in>{0..47}. leafy (tile_at w y c)"
    unfolding gen_inv_def by blast
  obtain h' k1 where wh: "walk_height biome h rnd k = (h', k1)"
    by (cases "walk_height biome h rnd k") auto
  with walk_height_range [of biome h rnd k] have h': "10 \<le> h'" "h' \<le> 43" by simp_all
  then have h0: "0 \<le> h'" by simp
  from fill_column_spec [OF wf x h0, of h' rnd k1]
  obtain w1 k2 where f: "fill_column w x h' h' rnd k1 = Some (w1, k2)" and wf1: "wf_world w1"
    and frame1: "\<forall>r c. \<not> (c = x \<and> h' \<le> r \<and> r < 48) \<longrightarrow> tile_at w1 r c = tile_at w r c"
    and blocks: "\<forall>r. h' \<le> r \<and> r < 48 \<longrightarrow> (\<exists>j. tile_at w1 r x = Some (fst (fill_block h' r rnd j)))"
    by blast
  have block: "\<exists>j. tile_at w1 r x = Some (fst (fill_block h' r rnd j))" if "h' \<le> r" "r < 48" for r
    using blocks that by blast
  have layers1: "column_layers rnd w1 x h'"
  proof -
    have "tile_at w1 h' x = Some GRASS"
      using block [of h'] h' fill_block_layers(1) [OF h'] by auto
    moreover have "\<forall>y\<in>{h' + 1..min (h' + 5) 46}. tile_at w1 y x = Some DIRT"
    proof
      fix y assume y: "y \<in> {h' + 1..min (h' + 5) 46}"
      then have "h' \<le> y" "y < 48" by auto
      from block [OF this] fill_block_layers(2) [OF h' y] show "tile_at w1 y x = Some DIRT"
        by auto
    qed
    moreover have "\<forall>y\<in>{h' + 6..46}. deep_block rnd (tile_at w1 y x)"
    proof
      fix y assume y: "y \<in> {h' + 6..46}"
      then have "h' \<le> y" "y < 48" by auto
      from block [OF this] obtain j where "tile_at w1 y x = Some (fst (fill_block h' y rnd j))"
        by blast
      with fill_block_layers(3) [OF h' y, of rnd j]
      have "tile_at w1 y x = Some (if rnd j > 0.9 then ORE else STONE)"
        by simp
      then show "deep_block rnd (tile_at w1 y x)"
        unfolding deep_block_def by blast
    qed
    moreover have "tile_at w1 47 x = Some BEDROCK"
      using block [of 47] h' fill_block_layers(4) [OF h'] by auto
    ultimately show ?thesis
      using h' by (simp add: column_layers_def)
  qed
  then have grass: "tile_at w1 h' x = Some GRASS"
    by (simp add: column_layers_def)
  have above1: "\<forall>y\<in>{0..h' - 1}. leafy (tile_at w1 y x)"
  proof
    fix y assume y: "y \<in> {0..h' - 1}"
    with frame1 have "tile_at w1 y x = tile_at w y x" by simp
    moreover from y h' x rest have "leafy (tile_at w y x)" by simp
    ultimately show "leafy (tile_at w1 y x)" by simp
  qed
  from grow_tree_spec [OF wf1 x h' draws grass above1, of biome k2]
  obtain w2 k3 where t: "grow_tree biome w1 x h' rnd k2 = Some (w2, k3)" and wf2: "wf_world w2"
    and others: "\<forall>c. c \<noteq> x \<longrightarrow> grows w1 w2 c"
    and below: "\<forall>r. h' \<le> r \<longrightarrow> tile_at w2 r x = tile_at w1 r x"
    and tree: "column_tree biome rnd w2 x h'"
    by blast
  have other_cols: "grows w w2 c" if "c \<noteq> x" for c
  proof -
    from others that have "grows w1 w2 c" by simp
    moreover from frame1 that have "tile_at w1 r c = tile_at w r c" for r by simp
    ultimately show ?thesis by (simp add: grows_def)
  qed
  have layers2: "column_layers rnd w2 x h'"
    using layers1 below h' unfolding column_layers_def by auto
  define hs' where "hs' = hs(x := h')"
  have hs'1: "hs' (- 1) = 24" using hs(1) x by (simp add: hs'_def)
  have hs'x: "hs' (x + 1 - 1) = h'" by (simp add: hs'_def)
  have "column_done biome rnd w2 hs' c" if c: "c \<in> {0..x + 1 - 1}" for c
  proof (cases "c = x")
    case True
    have "walk_step biome rnd h h'"
      unfolding walk_step_def using wh by (intro exI [of _ k]) simp
    with True layers2 tree hs(2) show ?thesis
      by (simp add: column_done_def hs'_def)
  next
    case False
    with c have c': "c \<in> {0..x - 1}" by simp
    with finished have d: "column_done biome rnd w hs c" by blast
    from c' have eq: "hs' c = hs c" "hs' (c - 1) = hs (c - 1)"
      by (simp_all add: hs'_def)
    from d show ?thesis
      unfolding column_done_def eq
      using grows_layers [OF other_cols [OF False]] grows_tree [OF other_cols [OF False]]
      by blast
  qed
  moreover have "\<forall>c\<in>{x + 1..63}. \<forall>y\<in>{0..47}. leafy (tile_at w2 y c)"
  proof (intro ballI)
    fix c y assume c: "c \<in> {x + 1..63}" and y: "y \<in> {0..47::int}"
    then have "c \<noteq> x" by simp
    from c y rest have "leafy (tile_at w y c)" by simp
    from grows_leafy [OF other_cols [OF \<open>c \<noteq> x\<close>] this] show "leafy (tile_at w2 y c)" .
  qed
  ultimately have "gen_inv biome rnd w2 h' (x + 1)"
    unfolding gen_inv_def using wf2 hs'1 hs'x by blast
  with wh f t show ?thesis by blast
qed

lemma gen_columns_spec:
  assumes "gen_inv biome rnd w h x" and "0 \<le> x" and "x \<le> 64" and "valid_draws rnd"
  shows "\<exists>w' h'. gen_columns biome w h x rnd k = Some w' \<and> gen_inv biome rnd w' h' 64"
  using assms
proof (induction biome w h x rnd k rule: gen_columns.induct)
  case (1 biome w h x rnd k)
  show ?case
  proof (cases "x < 64")
    case False
    with "1.prems" have "x = 64" by simp
    moreover have "gen_columns biome w h 64 rnd k = Some w"
      by (subst gen_columns.simps) (simp add: grid_consts)
    ultimately show ?thesis using "1.prems"(1) by blast
  next
    case True
    from gen_step [OF "1.prems"(1,2) True "1.prems"(4), of k]
    obtain h' k1 w1 k2 w2 k3 where wh: "walk_height biome h rnd k = (h', k1)"
      and f: "fill_column w x h' h' rnd k1 = Some (w1, k2)"
      and t: "grow_tree biome w1 x h' rnd k2 = Some (w2, k3)"
      and inv: "gen_inv biome rnd w2 h' (x + 1)"
      by blast
    from True have lt: "x < CHUNK_WIDTH" by (simp add: grid_consts)
    from "1.IH" [OF lt wh [symmetric] f refl t refl inv] "1.prems"(2,4) True
    obtain w' h'' where "gen_columns biome w2 h' (x + 1) rnd k3 = Some w'"
      "gen_inv biome rnd w' h'' 64"
      by auto
    moreover have "gen_columns biome w h x rnd k = gen_columns biome w2 h' (x + 1) rnd k3"
      by (subst gen_columns.simps) (simp add: lt wh f t)
    ultimately show ?thesis by auto
  qed
qed

lemma gen_inv_start: "gen_inv biome rnd air_world 24 0"
proof -
  have "\<forall>c\<in>{0..63}. \<forall>y\<in>{0..47}. leafy (tile_at air_world y c)"
    by (simp add: tile_air_world leafy_def)
  moreover have "\<exists>hs::int \<Rightarrow> int. hs (- 1) = 24 \<and> hs (0 - 1) = 24 \<and>
      (\<forall>c\<in>{0..0 - 1}. column_done biome rnd air_world hs c)"
    by (intro exI [of _ "\<lambda>_. 24"]) simp
  ultimately show ?thesis
    unfolding gen_inv_def using wf_air_world by blast
qed

lemma gen_inv_end:
  assumes "gen_inv biome rnd w h 64"
  shows "wf_world w" and "generated biome rnd w"
proof -
  from assms show wf: "wf_world w" by (simp add: gen_inv_def)
  from assms obtain hs where "hs (- 1) = 24"
    "\<forall>c\<in>{0..64 - 1}. column_done biome rnd w hs c"
    unfolding gen_inv_def by blast
  then have "hs (- 1) = 24 \<and> (\<forall>x\<in>{0..63}. walk_step biome rnd (hs (x - 1)) (hs x) \<and>
      column_layers rnd w x (hs x) \<and> column_tree biome rnd w x (hs x))"
    by (simp add: column_done_def)
  then show "generated biome rnd w"
    unfolding generated_def using wf by (auto simp: wf_world_def)
qed

lemma generateWorld_spec:
  assumes "valid_draws rnd"
  shows "\<exists>w. generateWorld biome rnd g =
             Some (g\<lparr>world := w,
                     player := (player g)\<lparr>player_x := 512, player_y := 0,
                                           player_vx := 0, player_vy := 0\<rparr>\<rparr>) \<and>
             wf_world w \<and> generated biome rnd w"
proof -
  from gen_columns_spec [OF gen_inv_start _ _ assms, of biome 0]
  obtain w h where w: "gen_columns biome air_world 24 0 rnd 0 = Some w"
    and inv: "gen_inv biome rnd w h 64"
    by auto
  from w have "generateWorld biome rnd g =
      Some (g\<lparr>world := w,
              player := (player g)\<lparr>player_x := 512, player_y := 0,
                                    player_vx := 0, player_vy := 0\<rparr>\<rparr>)"
    by (simp add: generateWorld_def grid_consts)
  with gen_inv_end [OF inv] show ?thesis by blast
qed

section \<open>The generated world\<close>

lemma valid_zero_draws: "valid_draws zero_draws"
  by (simp add: valid_draws_def zero_draws_def)





section \<open>Invariants of a run\<close>

lemma types_block_id: "b \<in> set types \<Longrightarrow> b \<le> ORE"
  by (auto simp: types_def BlockType_defs)

lemma length_types: "length types = 5"
  by (simp add: types_def)

lemma next_block_in_types: "next_block b \<in> set types"
proof -
  have "0 \<le> (indexOf types b + 1) mod 5" and "(indexOf types b + 1) mod 5 < 5"
    by simp_all
  then have "nat ((indexOf types b + 1) mod 5) < length types"
    by (simp only: length_types; linarith)
  then have "types ! nat ((indexOf types b + 1) mod 5) \<in> set types"
    by (rule nth_mem)
  then show ?thesis
    by (simp only: next_block_def length_types of_nat_numeral)
qed

lemma interaction_cases:
  assumes "interaction_step inputs now w p lastT = Some (w', p', l', m)"
  shows "(w' = w \<or>
          (in_grid (target_gy p) (target_gx p) \<and>
           read_cell w (target_gy p) (target_gx p) \<noteq> Some (Some BEDROCK) \<and>
           write_cell w (target_gy p) (target_gx p) AIR = Some w') \<or>
          (in_grid (target_gy p) (target_gx p) \<and>
           read_cell w (target_gy p) (target_gx p) = Some (Some AIR) \<and>
           write_cell w (target_gy p) (target_gx p) (selectedBlock p) = Some w')) \<and>
         (selectedBlock p' = selectedBlock p \<or> selectedBlock p' = next_block (selectedBlock p))"
proof (cases "action_due inputs now lastT \<and> in_grid (target_gy p) (target_gx p)")
  case False
  with assms have "w' = w" and "p' = p"
    by (auto simp: interaction_step_def split: if_splits)
  then show ?thesis by simp
next
  case True
  with assms obtain c where c: "read_cell w (target_gy p) (target_gx p) = Some c"
    by (cases "read_cell w (target_gy p) (target_gx p)")
      (auto simp: interaction_step_def action_due_def split: if_splits)
  show ?thesis
  proof (cases "actionA inputs")
    case mine: True
    with True c assms show ?thesis
      by (cases "c = Some BEDROCK") (auto simp: interaction_step_def)
  next
    case no_mine: False
    with True have place: "actionB inputs" by (simp add: action_due_def)
    show ?thesis
    proof (cases "c = Some AIR")
      case air: True
      with True c no_mine place assms show ?thesis
        by (cases "checkCollision w (target_x p) (target_y p)")
          (auto simp: interaction_step_def)
    next
      case False
      with True c no_mine place assms show ?thesis
        by (auto simp: interaction_step_def)
    qed
  qed
qed

lemma wf_write_in_grid:
  assumes "wf_world w" and "in_grid y x" and "v \<le> ORE" and "write_cell w y x v = Some w'"
  shows "wf_world w'"
proof -
  from assms(2) have "0 \<le> y" "y < 48" "0 \<le> x" "x < 64"
    by (simp_all add: in_grid_def grid_consts)
  from write_wf [OF assms(1) this assms(3)] assms(4) show ?thesis by auto
qed

lemma interaction_wf:
  assumes "wf_world w" and "selectedBlock p \<in> set types"
    and "interaction_step inputs now w p lastT = Some (w', p', l', m)"
  shows "wf_world w'" and "selectedBlock p' \<in> set types"
proof -
  note c = interaction_cases [OF assms(3)]
  have "AIR \<le> ORE" by (simp add: BlockType_defs)
  with c assms(1,2) show "wf_world w'"
    by (auto intro: wf_write_in_grid dest: types_block_id)
  from c assms(2) show "selectedBlock p' \<in> set types"
    by (auto simp: next_block_in_types)
qed

lemma update_wf:
  assumes "wf_world (world g)" and "selectedBlock (player g) \<in> set types"
  shows "wf_world (world (after (update has_ctx biome inputs now g)))"
    and "selectedBlock (player (after (update has_ctx biome inputs now g))) \<in> set types"
proof -
  let ?p1 = "physics_step biome inputs (world g) (player g)"
  let ?i = "interaction_step inputs now (world g) ?p1 (lastActionTime g)"
  from assms(2) have s1: "selectedBlock ?p1 \<in> set types"
    by (simp add: physics_selected)
  have "wf_world (world (after (update has_ctx biome inputs now g))) \<and>
    selectedBlock (player (after (update has_ctx biome inputs now g))) \<in> set types"
  proof (cases has_ctx)
    case False
    with assms show ?thesis by (simp add: update_no_ctx skipped_def)
  next
    case True
    show ?thesis
    proof (cases ?i)
      case None
      with True assms s1 show ?thesis
        by (simp add: update_run_stages run_stages_def Let_def)
    next
      case (Some a)
      obtain w' p' l' m where a: "a = (w', p', l', m)" by (cases a) auto
      from interaction_wf [OF assms(1) s1 Some [unfolded a]] True Some a show ?thesis
        by (simp add: update_run_stages run_stages_def Let_def)
    qed
  qed
  then show "wf_world (world (after (update has_ctx biome inputs now g)))"
    and "selectedBlock (player (after (update has_ctx biome inputs now g))) \<in> set types"
    by simp_all
qed

lemma generateWorld_wf:
  assumes "valid_draws rnd" and "generateWorld biome rnd g = Some g'"
  shows "wf_world (world g')" and "selectedBlock (player g') = selectedBlock (player g)"
    and "generated biome rnd (world g')"
  using generateWorld_spec [OF assms(1), of biome g] assms(2) by auto

lemma reachable_invariant:
  "reachable g \<Longrightarrow> wf_world (world g) \<and> selectedBlock (player g) \<in> set types"
proof (induction rule: reachable.induct)
  case (start rnd biome g)
  from generateWorld_wf(1,2) [OF start] show ?case
    by (simp add: initial_game_def types_def)
next
  case (regenerate g rnd biome g')
  from generateWorld_wf(1,2) [OF regenerate(2,3)] regenerate(4) show ?case
    by simp
next
  case (frame g has_ctx biome inputs now)
  then show ?case by (simp add: update_wf)
qed

text \<open>
  C6. The world is one grid of fixed size: in every state the game reaches, by world
  generation and by frames with any inputs, the world has 48 rows of 64 cells, and every
  cell holds one of the eight tile IDs \<^verbatim>\<open>AIR\<close> to \<^verbatim>\<open>ORE\<close>.
\<close>

theorem world_stays_grid:
  assumes "reachable g"
  shows "wf_world (world g) \<and> length (world g) = 48 \<and>
         (\<forall>r\<in>set (world g). length r = 64 \<and>
            (\<forall>c\<in>set r. \<exists>t\<in>{AIR, DIRT, GRASS, STONE, WOOD, LEAVES, BEDROCK, ORE}. c = Some t))"
proof -
  from reachable_invariant [OF assms] have wf: "wf_world (world g)" by simp
  have "\<exists>t\<in>{AIR, DIRT, GRASS, STONE, WOOD, LEAVES, BEDROCK, ORE}. c = Some t"
    if "block_id c" for c
  proof -
    from that obtain t where t: "c = Some t" "t \<le> 7"
      by (cases c) (auto simp: block_id_def BlockType_defs)
    from t(2) consider "t = 0" | "t = 1" | "t = 2" | "t = 3" | "t = 4" | "t = 5" | "t = 6"
      | "t = 7" by linarith
    then show ?thesis
      using t(1) by cases (simp_all add: BlockType_defs)
  qed
  with wf show ?thesis
    by (auto simp: wf_world_def grid_shape_def grid_consts list_all_iff)
qed

theorem world_stays_grid_witness:
  "\<exists>g. generateWorld DEFAULT_BIOME zero_draws initial_game = Some g \<and>
       reachable (after (update True DEFAULT_BIOME press_A 1000 g)) \<and>
       wf_world (world (after (update True DEFAULT_BIOME press_A 1000 g))) \<and>
       length (world (after (update True DEFAULT_BIOME press_A 1000 g))) = 48"
proof -
  from generateWorld_spec [OF valid_zero_draws, of DEFAULT_BIOME initial_game] obtain g where
    g: "generateWorld DEFAULT_BIOME zero_draws initial_game = Some g"
    by auto
  from reachable.start [OF valid_zero_draws g]
  have r: "reachable (after (update True DEFAULT_BIOME press_A 1000 g))"
    by (rule reachable.frame)
  from world_stays_grid [OF r] r g show ?thesis by blast
qed

text \<open>A reached world never makes the action block throw.\<close>

lemma reachable_never_throws:
  assumes "reachable g"
  shows "\<not> thrown (update has_ctx biome inputs now g)"
proof (cases has_ctx)
  case False
  then show ?thesis by (simp add: update_no_ctx skipped_def)
next
  case True
  let ?p1 = "physics_step biome inputs (world g) (player g)"
  from reachable_invariant [OF assms] have wf: "wf_world (world g)" by simp
  have "interaction_step inputs now (world g) ?p1 (lastActionTime g) \<noteq> None"
  proof (cases "in_grid (target_gy ?p1) (target_gx ?p1)")
    case False
    then show ?thesis by (simp add: interaction_step_def)
  next
    case True
    then have y: "0 \<le> target_gy ?p1" "target_gy ?p1 < 48"
      and x: "0 \<le> target_gx ?p1" "target_gx ?p1 < 64"
      by (simp_all add: in_grid_def grid_consts)
    have "AIR \<le> ORE" by (simp add: BlockType_defs)
    from write_wf [OF wf y x this] obtain wa where
      "write_cell (world g) (target_gy ?p1) (target_gx ?p1) AIR = Some wa" by blast
    moreover from write_exists [of "world g" "target_gy ?p1" _ "selectedBlock ?p1"] this
    obtain wb where
      "write_cell (world g) (target_gy ?p1) (target_gx ?p1) (selectedBlock ?p1) = Some wb"
      by (auto simp: write_cell_def split: option.splits)
    ultimately show ?thesis
      by (simp add: interaction_step_def wf_read [OF wf y])
  qed
  with True show ?thesis
    by (auto simp: update_run_stages run_stages_def Let_def)
qed

section \<open>Bedrock\<close>

lemma interaction_keeps_bedrock:
  assumes "interaction_step inputs now w p lastT = Some (w', p', l', m)"
    and "tile_at w y x = Some BEDROCK"
  shows "tile_at w' y x = Some BEDROCK"
proof -
  note c = interaction_cases [OF assms(1)]
  have "tile_at w' y x = Some BEDROCK"
    if wr: "write_cell w (target_gy p) (target_gx p) v = Some w'"
      and grid: "in_grid (target_gy p) (target_gx p)"
      and rd: "read_cell w (target_gy p) (target_gx p) \<noteq> Some (Some BEDROCK)" for v
  proof -
    from grid have "0 \<le> target_gx p" by (simp add: in_grid_def)
    note t = tile_at_write [OF wr this, of y x]
    from wr have "js_row w (target_gy p) \<noteq> None"
      by (auto simp: write_cell_def split: option.splits)
    then have "read_cell w (target_gy p) (target_gx p) = Some (tile_at w (target_gy p) (target_gx p))"
      by (auto simp: read_cell_def tile_at_def)
    with rd assms(2) have "\<not> (y = target_gy p \<and> x = target_gx p)" by auto
    with t assms(2) show ?thesis by auto
  qed
  note keeps = this
  from c consider "w' = w"
    | "in_grid (target_gy p) (target_gx p)"
      "read_cell w (target_gy p) (target_gx p) \<noteq> Some (Some BEDROCK)"
      "write_cell w (target_gy p) (target_gx p) AIR = Some w'"
    | "in_grid (target_gy p) (target_gx p)"
      "read_cell w (target_gy p) (target_gx p) = Some (Some AIR)"
      "write_cell w (target_gy p) (target_gx p) (selectedBlock p) = Some w'"
    by blast
  then show ?thesis
  proof cases
    case 1
    with assms(2) show ?thesis by simp
  next
    case 2
    from keeps [OF 2(3,1,2)] show ?thesis .
  next
    case 3
    from 3(2) have "read_cell w (target_gy p) (target_gx p) \<noteq> Some (Some BEDROCK)"
      by (simp add: BlockType_defs)
    from keeps [OF 3(3,1) this] show ?thesis .
  qed
qed

lemma update_keeps_bedrock:
  assumes "tile_at (world g) y x = Some BEDROCK"
  shows "tile_at (world (after (update has_ctx biome inputs now g))) y x = Some BEDROCK"
proof (cases has_ctx)
  case False
  with assms show ?thesis by (simp add: update_no_ctx skipped_def)
next
  case True
  show ?thesis
  proof (cases "interaction_step inputs now (world g)
      (physics_step biome inputs (world g) (player g)) (lastActionTime g)")
    case None
    with True assms show ?thesis by (simp add: update_run_stages world_after)
  next
    case (Some a)
    obtain w' p' l' m where a: "a = (w', p', l', m)" by (cases a) auto
    from interaction_keeps_bedrock [OF Some [unfolded a] assms] True Some a show ?thesis
      by (simp add: update_run_stages world_after)
  qed
qed

lemma frames_keep_bedrock:
  "frames g g' \<Longrightarrow> tile_at (world g) y x = Some BEDROCK \<Longrightarrow> tile_at (world g') y x = Some BEDROCK"
  by (induction rule: frames.induct) (simp_all add: update_keeps_bedrock)

lemma generated_bottom:
  assumes "generated biome rnd w" and "x \<in> {0..63}"
  shows "tile_at w 47 x = Some BEDROCK"
  using assms unfolding generated_def column_layers_def by blast

text \<open>
  C7. Bedrock is permanent. In every state reached from a freshly generated world by any
  number of frames with any inputs, every cell that held bedrock in the generated world
  still holds bedrock; the whole bottom row, \<open>y = 47\<close>, is bedrock forever.
\<close>

theorem bedrock_is_permanent:
  assumes "valid_draws rnd" and "generateWorld biome rnd g0 = Some g1" and "frames g1 g2"
  shows "(\<forall>y x. tile_at (world g1) y x = Some BEDROCK \<longrightarrow> tile_at (world g2) y x = Some BEDROCK) \<and>
         (\<forall>x\<in>{0..63}. tile_at (world g2) 47 x = Some BEDROCK)"
proof -
  have keep: "tile_at (world g2) y x = Some BEDROCK" if "tile_at (world g1) y x = Some BEDROCK" for y x
    using frames_keep_bedrock [OF assms(3) that] .
  from generateWorld_wf(3) [OF assms(1,2)] have "\<forall>x\<in>{0..63}. tile_at (world g1) 47 x = Some BEDROCK"
    using generated_bottom by blast
  with keep show ?thesis by blast
qed

theorem bedrock_is_permanent_witness:
  "\<exists>g1. generateWorld DEFAULT_BIOME zero_draws initial_game = Some g1 \<and>
        frames g1 (after (update True DEFAULT_BIOME press_A 1000 g1)) \<and>
        tile_at (world (after (update True DEFAULT_BIOME press_A 1000 g1))) 47 0 = Some BEDROCK"
proof -
  from generateWorld_spec [OF valid_zero_draws, of DEFAULT_BIOME initial_game] obtain g1 where
    g1: "generateWorld DEFAULT_BIOME zero_draws initial_game = Some g1"
    by auto
  have f: "frames g1 (after (update True DEFAULT_BIOME press_A 1000 g1))"
    by (rule frames.more) (rule frames.none)
  from bedrock_is_permanent [OF valid_zero_draws g1 f]
  have "tile_at (world (after (update True DEFAULT_BIOME press_A 1000 g1))) 47 0 = Some BEDROCK"
    by simp
  with g1 f show ?thesis by blast
qed

end
